theory Spec2Isabelle
  imports Main "HOL-Library.Char_ord" "HOL-Library.List_Lexorder"
begin

section \<open>Collections: data model\<close>

text \<open>
  The embedding follows \<^verbatim>\<open>superset/collections/models.py\<close>,
  \<^verbatim>\<open>constants.py\<close>, \<^verbatim>\<open>exceptions.py\<close> and \<^verbatim>\<open>dao.py\<close>.

  The relational store is a record of tables, each table a list of rows in table order.
  A DAO operation that writes takes the store and returns its outcome together with the
  store as it is in the database after the call: the committed store on success, the
  store it was given after a raise or a rollback.

  Of the constraints of the schema the model has the unique slug, checked by the commit
  of an update, and, at the commit of a new link, the foreign key of the link to the item
  catalogue and the range of the integer column \<^verbatim>\<open>item_count\<close>. A store given as
  input may still hold a link to an item that is gone: the DAO's own safety checks on
  \<^verbatim>\<open>link.dashboard\<close> provide for it. The self-reference of \<^verbatim>\<open>parent_id\<close> is not
  checked by a commit.

  What the model leaves to the database engine and the ORM: the audit columns kept by the
  mixin (timestamps, and the user an update is attributed to when none is given), an
  assignment to a column attribute is persisted by the commit as written,
  \<^verbatim>\<open>ORDER BY name\<close> is a stable sort in the lexicographic order of character codes,
  and a character of a string is a code point below 256.
\<close>

datatype CollectionItemType = DASHBOARD | CHART | DATASET

datatype error =
    CollectionNotFoundError
  | CollectionCycleError
  | CollectionSlugExistsError
  | CollectionItemAlreadyExistsError
  | CollectionItemNotFoundError
  | ValueError
  | IntegrityError
  | DataError

record User =
  user_id :: int

text \<open>Table \<^verbatim>\<open>sp_collection\<close>. The primary key \<^verbatim>\<open>id\<close> is the field \<open>col_id\<close>.\<close>

record SpCollection =
  col_id :: int
  uuid :: string
  name :: string
  slug :: string
  description :: "string option"
  parent_id :: "int option"
  is_official :: bool
  item_count :: int
  created_by_fk :: "int option"
  changed_by_fk :: "int option"

text \<open>
  The three link tables \<^verbatim>\<open>sp_collection_dashboard\<close>, \<^verbatim>\<open>sp_collection_chart\<close> and
  \<^verbatim>\<open>sp_collection_dataset\<close> have the same shape; \<open>link_item_id\<close> is the column
  \<^verbatim>\<open>dashboard_id\<close>, \<^verbatim>\<open>chart_id\<close> or \<^verbatim>\<open>dataset_id\<close>. A row's identity is its
  position in the table.
\<close>

record SpCollectionLink =
  link_collection_id :: int
  link_item_id :: int
  link_created_by_fk :: "int option"

text \<open>The item catalogue: the rows the links refer to, with the fields the DAO reads.\<close>

record Dashboard =
  dashboard_id :: int
  dashboard_title :: string
  dashboard_slug :: "string option"
  dashboard_url :: string

record Slice =
  chart_id :: int
  slice_name :: string
  viz_type :: string
  chart_url :: string

record SqlaTable =
  dataset_id :: int
  table_name :: string
  schema_name :: "string option"
  database_name :: "string option"

record store =
  collections :: "SpCollection list"
  dashboard_links :: "SpCollectionLink list"
  chart_links :: "SpCollectionLink list"
  dataset_links :: "SpCollectionLink list"
  dashboards :: "Dashboard list"
  charts :: "Slice list"
  datasets :: "SqlaTable list"

text \<open>Python truthiness of an \<^verbatim>\<open>Optional[int]\<close>: \<^verbatim>\<open>None\<close> and \<^verbatim>\<open>0\<close> are falsy.\<close>

fun truthy :: "int option \<Rightarrow> bool" where
  "truthy None = False"
| "truthy (Some n) = (n \<noteq> 0)"

section \<open>Queries\<close>

text \<open>
  Modelled from the spec: \<^verbatim>\<open>BaseDAO.find_by_id\<close> of \<^verbatim>\<open>superset.daos.base\<close> is not
  among the sources; the persistence interface of the specification gives it as
  query-by-id, the row with that primary key or nothing.
\<close>

definition find_by_id :: "store \<Rightarrow> int \<Rightarrow> SpCollection option" where
  "find_by_id s i = find (\<lambda>c. col_id c = i) (collections s)"

definition find_by_slug :: "store \<Rightarrow> string \<Rightarrow> SpCollection option" where
  "find_by_slug s g = find (\<lambda>c. slug c = g) (collections s)"

definition find_root_collections :: "store \<Rightarrow> SpCollection list" where
  "find_root_collections s = sort_key name (filter (\<lambda>c. parent_id c = None) (collections s))"

definition find_children :: "store \<Rightarrow> int \<Rightarrow> SpCollection list" where
  "find_children s p = sort_key name (filter (\<lambda>c. parent_id c = Some p) (collections s))"

section \<open>The cycle check of the model class\<close>

text \<open>
  The loop of \<^verbatim>\<open>SpCollection.has_cycle_with_parent\<close>: \<open>self_id\<close> is \<^verbatim>\<open>self.id\<close>
  (\<^verbatim>\<open>None\<close> for a collection not yet flushed), \<open>current_id\<close> and \<open>visited\<close> are the
  loop's variables. \<^verbatim>\<open>while current_id:\<close> leaves the loop on \<^verbatim>\<open>None\<close> and on \<^verbatim>\<open>0\<close>.
\<close>

definition parent_of :: "store \<Rightarrow> int \<Rightarrow> int option" where
  "parent_of s c = (case find_by_id s c of None \<Rightarrow> None | Some parent \<Rightarrow> parent_id parent)"

function has_cycle_loop :: "store \<Rightarrow> int option \<Rightarrow> int option \<Rightarrow> int set \<Rightarrow> bool" where
  "has_cycle_loop s self_id current_id visited =
     (case current_id of
        None \<Rightarrow> False
      | Some c \<Rightarrow>
          if c = 0 then False
          else if c \<in> visited then True
          else if Some c = self_id then True
          else has_cycle_loop s self_id (parent_of s c) (insert c visited))"
  by pat_completeness auto

definition parent_ids :: "store \<Rightarrow> int set" where
  "parent_ids s = {p. Some p \<in> parent_id ` set (collections s)}"

lemma finite_parent_ids: "finite (parent_ids s)"
proof -
  have "parent_ids s = Some -` (parent_id ` set (collections s))"
    unfolding parent_ids_def by auto
  then show ?thesis
    by (simp add: finite_vimageI)
qed

lemma parent_of_in_parent_ids: "parent_of s c = Some p \<Longrightarrow> p \<in> parent_ids s"
  unfolding parent_of_def find_by_id_def parent_ids_def
  by (auto split: option.splits simp: find_Some_iff image_iff) (metis nth_mem)

definition loop_measure :: "store \<times> int option \<times> int option \<times> int set \<Rightarrow> nat" where
  "loop_measure = (\<lambda>(s, self_id, current_id, visited).
     case current_id of
       None \<Rightarrow> 0
     | Some c \<Rightarrow> 1 + card (parent_ids s - visited) + (if c \<in> parent_ids s then 0 else 1))"

termination has_cycle_loop
proof (relation "measure loop_measure", goal_cases)
  case 1
  show ?case by simp
next
  case (2 s self_id current_id visited c)
  show ?case
  proof (cases "parent_of s c")
    case None
    with 2 show ?thesis by (simp add: loop_measure_def)
  next
    case (Some p)
    then have p: "p \<in> parent_ids s" by (rule parent_of_in_parent_ids)
    show ?thesis
    proof (cases "c \<in> parent_ids s")
      case True
      with 2 have "c \<in> parent_ids s - visited" by simp
      then have "card (parent_ids s - insert c visited) < card (parent_ids s - visited)"
        by (metis Diff_insert card_Diff1_less finite_Diff finite_parent_ids)
      with 2 Some p True show ?thesis by (simp add: loop_measure_def)
    next
      case False
      then have "parent_ids s - insert c visited = parent_ids s - visited" by auto
      with 2 Some p False show ?thesis by (simp add: loop_measure_def)
    qed
  qed
qed

definition has_cycle_with_parent :: "store \<Rightarrow> int option \<Rightarrow> int \<Rightarrow> bool" where
  "has_cycle_with_parent s self_id potential_parent_id =
     (if Some potential_parent_id = self_id then True
      else has_cycle_loop s self_id (Some potential_parent_id) {})"

definition can_be_moved_to :: "store \<Rightarrow> int option \<Rightarrow> int option \<Rightarrow> bool" where
  "can_be_moved_to s self_id new_parent_id =
     (case new_parent_id of
        None \<Rightarrow> True
      | Some p \<Rightarrow> if Some p = self_id then False else \<not> has_cycle_with_parent s self_id p)"

text \<open>
  Following the specification's words for the cycle check, the parent chain walked upward
  from a candidate: \<open>parent_chain s c n\<close> is the \<open>n\<close>-th id on the chain that starts
  at \<open>c\<close>, and \<open>None\<close> once the chain has ended at a null parent (a null or zero
  id, or the parent of a row that does not exist).
\<close>

fun parent_chain :: "store \<Rightarrow> int option \<Rightarrow> nat \<Rightarrow> int option" where
  "parent_chain s c 0 = (if truthy c then c else None)"
| "parent_chain s c (Suc n) =
     (case c of
        None \<Rightarrow> None
      | Some x \<Rightarrow> if x = 0 then None else parent_chain s (parent_of s x) n)"

section \<open>Validators of the model class\<close>

text \<open>
  \<^verbatim>\<open>str.strip\<close> and \<^verbatim>\<open>str.lower\<close> on code points below 256 (the white space of
  Python there is 9 to 13, 28 to 32, 133 and 160; the upper case letters are 65 to 90 and
  192 to 222 without 215), and the character class \<^verbatim>\<open>[a-z0-9-_]\<close> of the slug pattern. The pattern is matched against a stripped
  string, which ends in no newline, so \<^verbatim>\<open>^[a-z0-9-_]+$\<close> holds exactly when the
  string is not empty and all its characters are of the class.
\<close>

definition is_space :: "char \<Rightarrow> bool" where
  "is_space ch = (let n = (of_char ch :: nat)
                  in (9 \<le> n \<and> n \<le> 13) \<or> (28 \<le> n \<and> n \<le> 32) \<or> n = 133 \<or> n = 160)"

definition strip :: "string \<Rightarrow> string" where
  "strip t = rev (dropWhile is_space (rev (dropWhile is_space t)))"

definition lower :: "string \<Rightarrow> string" where
  "lower t = map (\<lambda>ch. let n = (of_char ch :: nat)
                        in if (65 \<le> n \<and> n \<le> 90) \<or> (192 \<le> n \<and> n \<le> 222 \<and> n \<noteq> 215)
                           then char_of (n + 32) else ch) t"

definition slug_char :: "char \<Rightarrow> bool" where
  "slug_char ch = (let n = (of_char ch :: nat)
                   in (97 \<le> n \<and> n \<le> 122) \<or> (48 \<le> n \<and> n \<le> 57) \<or> n = 45 \<or> n = 95)"

definition validate_name :: "string \<Rightarrow> error + string" where
  "validate_name nm =
     (if nm = [] \<or> strip nm = [] then Inl ValueError
      else if length (strip nm) > 255 then Inl ValueError
      else Inr (strip nm))"

definition validate_slug :: "string \<Rightarrow> error + string" where
  "validate_slug g =
     (if g = [] \<or> strip g = [] then Inl ValueError
      else if \<not> list_all slug_char (lower (strip g)) then Inl ValueError
      else if length (lower (strip g)) > 255 then Inl ValueError
      else Inr (lower (strip g)))"

definition validate_description :: "string option \<Rightarrow> error + string option" where
  "validate_description d =
     (case d of
        None \<Rightarrow> Inr None
      | Some t \<Rightarrow> if t \<noteq> [] \<and> length t > 1000 then Inl ValueError else Inr (Some t))"

definition validate_parent_id :: "SpCollection \<Rightarrow> int option \<Rightarrow> error + int option" where
  "validate_parent_id self p =
     (if p \<noteq> None \<and> p = Some (col_id self) then Inl ValueError else Inr p)"

section \<open>Writes of the session\<close>

text \<open>
  The statements a flush emits address rows of \<^verbatim>\<open>sp_collection\<close> by primary key.
\<close>

definition sql_update :: "('r \<Rightarrow> bool) \<Rightarrow> ('r \<Rightarrow> 'r) \<Rightarrow> 'r list \<Rightarrow> 'r list" where
  "sql_update P f rows = map (\<lambda>r. if P r then f r else r) rows"

definition sql_delete :: "('r \<Rightarrow> bool) \<Rightarrow> 'r list \<Rightarrow> 'r list" where
  "sql_delete P rows = filter (\<lambda>r. \<not> P r) rows"

text \<open>A link row has no key in the model: deleting a loaded link deletes that one row.\<close>

fun delete_first :: "('r \<Rightarrow> bool) \<Rightarrow> 'r list \<Rightarrow> 'r list" where
  "delete_first P [] = []"
| "delete_first P (r # rows) = (if P r then rows else r # delete_first P rows)"

definition bind_err :: "error + 'a \<Rightarrow> ('a \<Rightarrow> error + 'b) \<Rightarrow> error + 'b" where
  "bind_err m f = (case m of Inl e \<Rightarrow> Inl e | Inr v \<Rightarrow> f v)"

section \<open>The tree builder\<close>

datatype tree_node = TreeNode
  (node_id: int)
  (node_uuid: string)
  (node_name: string)
  (node_slug: string)
  (node_description: "string option")
  (node_is_official: bool)
  (node_item_count: int)
  (node_total_item_count: int)
  (node_depth: int)
  (node_children: "tree_node list")

text \<open>The property \<^verbatim>\<open>SpCollection.total_item_count\<close>: the direct links of the three kinds.\<close>

definition total_item_count :: "store \<Rightarrow> SpCollection \<Rightarrow> int" where
  "total_item_count s c =
     int (length (filter (\<lambda>l. link_collection_id l = col_id c) (dashboard_links s))) +
     int (length (filter (\<lambda>l. link_collection_id l = col_id c) (chart_links s))) +
     int (length (filter (\<lambda>l. link_collection_id l = col_id c) (dataset_links s)))"

text \<open>The two placeholders of the DAO.\<close>

definition filter_by_user_permissions ::
  "SpCollection list \<Rightarrow> User \<Rightarrow> string \<Rightarrow> SpCollection list" where
  "filter_by_user_permissions cs user permission = cs"

definition user_can_access_collection :: "User \<Rightarrow> SpCollection \<Rightarrow> string \<Rightarrow> bool" where
  "user_can_access_collection user collection permission = True"

definition make_node :: "store \<Rightarrow> SpCollection \<Rightarrow> int \<Rightarrow> tree_node list \<Rightarrow> tree_node" where
  "make_node s collection current_depth child_nodes =
     TreeNode (col_id collection) (uuid collection) (name collection) (slug collection)
       (description collection) (is_official collection) (item_count collection)
       (total_item_count s collection) current_depth child_nodes"

text \<open>
  The inner function \<^verbatim>\<open>build_tree_node\<close> of \<^verbatim>\<open>get_tree\<close>. Its recursion is bounded
  by nothing but \<^verbatim>\<open>max_depth\<close>, so the model carries fuel, the depth of the call stack
  it may use: the result is \<open>None\<close> when the fuel does not suffice, and a call that
  needs more than any fuel does not return.
\<close>

fun build_tree_node ::
  "nat \<Rightarrow> store \<Rightarrow> int option \<Rightarrow> User option \<Rightarrow> SpCollection \<Rightarrow> int \<Rightarrow> tree_node option" where
  "build_tree_node 0 s max_depth user collection current_depth = None"
| "build_tree_node (Suc fuel) s max_depth user collection current_depth =
     (if (case max_depth of None \<Rightarrow> True | Some m \<Rightarrow> current_depth < m) then
        (let found = find_children s (col_id collection);
             children = (case user of
                           None \<Rightarrow> found
                         | Some u \<Rightarrow> filter_by_user_permissions found u ''view'')
         in case those (map (\<lambda>child. build_tree_node fuel s max_depth user child (current_depth + 1))
                          children) of
              None \<Rightarrow> None
            | Some child_nodes \<Rightarrow> Some (make_node s collection current_depth child_nodes))
      else Some (make_node s collection current_depth []))"

definition get_tree ::
  "nat \<Rightarrow> store \<Rightarrow> int option \<Rightarrow> int option \<Rightarrow> User option \<Rightarrow> tree_node list option" where
  "get_tree fuel s root_id max_depth user =
     (let build = (\<lambda>roots.
            those (map (\<lambda>root. build_tree_node fuel s max_depth user root 0)
                     (filter (\<lambda>root. case user of
                                        None \<Rightarrow> True
                                      | Some u \<Rightarrow> user_can_access_collection u root ''view'')
                        roots)))
      in case root_id of
           None \<Rightarrow> build (find_root_collections s)
         | Some r \<Rightarrow>
             if r = 0 then build (find_root_collections s)
             else (case find_by_id s r of
                     None \<Rightarrow> Some []
                   | Some root \<Rightarrow> build [root]))"

text \<open>The tree traversal limit of \<^verbatim>\<open>constants.py\<close>; no function of the sources reads it.\<close>

definition MAX_TREE_DEPTH :: int where
  "MAX_TREE_DEPTH = 10"

text \<open>The depths of all nodes of a tree, the node's own first.\<close>

fun depths :: "tree_node \<Rightarrow> int list" where
  "depths (TreeNode i u n g d off ic tc dp cs) = dp # concat (map depths cs)"

section \<open>The collection repository\<close>

definition set_name :: "SpCollection \<Rightarrow> string option \<Rightarrow> error + SpCollection" where
  "set_name c v =
     (case v of
        None \<Rightarrow> Inr c
      | Some n \<Rightarrow> bind_err (validate_name n) (\<lambda>n'. Inr (c\<lparr>name := n'\<rparr>)))"

definition set_slug :: "SpCollection \<Rightarrow> string option \<Rightarrow> error + SpCollection" where
  "set_slug c v =
     (case v of
        None \<Rightarrow> Inr c
      | Some g \<Rightarrow> bind_err (validate_slug g) (\<lambda>g'. Inr (c\<lparr>slug := g'\<rparr>)))"

definition set_description :: "SpCollection \<Rightarrow> string option \<Rightarrow> error + SpCollection" where
  "set_description c v =
     (case v of
        None \<Rightarrow> Inr c
      | Some d \<Rightarrow> bind_err (validate_description (Some d)) (\<lambda>d'. Inr (c\<lparr>description := d'\<rparr>)))"

definition set_parent_id :: "SpCollection \<Rightarrow> int option \<Rightarrow> error + SpCollection" where
  "set_parent_id c v =
     (case v of
        None \<Rightarrow> Inr c
      | Some p \<Rightarrow> bind_err (validate_parent_id c (Some p)) (\<lambda>p'. Inr (c\<lparr>parent_id := p'\<rparr>)))"

definition set_is_official :: "SpCollection \<Rightarrow> bool option \<Rightarrow> SpCollection" where
  "set_is_official c v = (case v of None \<Rightarrow> c | Some b \<Rightarrow> c\<lparr>is_official := b\<rparr>)"

definition set_changed_by :: "SpCollection \<Rightarrow> User option \<Rightarrow> SpCollection" where
  "set_changed_by c v = (case v of None \<Rightarrow> c | Some u \<Rightarrow> c\<lparr>changed_by_fk := Some (user_id u)\<rparr>)"

text \<open>
  The block \<^verbatim>\<open># Update fields\<close> of \<^verbatim>\<open>update_collection\<close>: the assignments in the
  order of the source, each through its validator.
\<close>

definition update_fields ::
  "SpCollection \<Rightarrow> string option \<Rightarrow> string option \<Rightarrow> string option \<Rightarrow> int option \<Rightarrow>
   bool option \<Rightarrow> User option \<Rightarrow> error + SpCollection" where
  "update_fields c new_name new_slug new_description new_parent_id new_is_official changed_by =
     bind_err (set_name c new_name) (\<lambda>c1.
     bind_err (set_slug c1 new_slug) (\<lambda>c2.
     bind_err (set_description c2 new_description) (\<lambda>c3.
     bind_err (set_parent_id c3 new_parent_id) (\<lambda>c4.
     Inr (set_changed_by (set_is_official c4 new_is_official) changed_by)))))"

text \<open>
  The unique constraint on \<^verbatim>\<open>sp_collection.slug\<close>, checked by the commit of an update
  that changes the slug. The \<^verbatim>\<open>IntegrityError\<close> it raises names the column, so the
  handler of \<^verbatim>\<open>update_collection\<close> rolls back and raises
  \<^verbatim>\<open>CollectionSlugExistsError\<close>.
\<close>

definition slug_unique_violated :: "store \<Rightarrow> SpCollection \<Rightarrow> SpCollection \<Rightarrow> bool" where
  "slug_unique_violated s old new =
     (slug new \<noteq> slug old \<and>
      (\<exists>r \<in> set (collections s). col_id r \<noteq> col_id old \<and> slug r = slug new))"

definition update_collection ::
  "store \<Rightarrow> int \<Rightarrow> string option \<Rightarrow> string option \<Rightarrow> string option \<Rightarrow> int option \<Rightarrow>
   bool option \<Rightarrow> User option \<Rightarrow> (error + SpCollection) \<times> store" where
  "update_collection s collection_id new_name new_slug new_description new_parent_id
       new_is_official changed_by =
     (case find_by_id s collection_id of
        None \<Rightarrow> (Inl CollectionNotFoundError, s)
      | Some collection \<Rightarrow>
          if (case new_slug of
                None \<Rightarrow> False
              | Some g \<Rightarrow> g \<noteq> [] \<and> g \<noteq> slug collection \<and>
                  (case find_by_slug s g of
                     None \<Rightarrow> False
                   | Some existing \<Rightarrow> col_id existing \<noteq> collection_id))
          then (Inl CollectionSlugExistsError, s)
          else if (case new_parent_id of
                     None \<Rightarrow> False
                   | Some p \<Rightarrow> Some p \<noteq> parent_id collection \<and> p \<noteq> 0 \<and>
                       \<not> can_be_moved_to s (Some (col_id collection)) (Some p))
          then (Inl CollectionCycleError, s)
          else (case update_fields collection new_name new_slug new_description new_parent_id
                       new_is_official changed_by of
                  Inl e \<Rightarrow> (Inl e, s)
                | Inr updated \<Rightarrow>
                    if slug_unique_violated s collection updated
                    then (Inl CollectionSlugExistsError, s)
                    else (Inr updated,
                          s\<lparr>collections :=
                               sql_update (\<lambda>r. col_id r = collection_id) (\<lambda>r. updated)
                                 (collections s)\<rparr>)))"

text \<open>
  The loop of \<^verbatim>\<open>delete_collection\<close> over the children: each assignment of
  \<^verbatim>\<open>parent_id\<close> goes through the validator, and the first refusal ends the loop.
\<close>

fun reparent :: "SpCollection list \<Rightarrow> int option \<Rightarrow> error + SpCollection list" where
  "reparent [] p = Inr []"
| "reparent (child # rest) p =
     bind_err (validate_parent_id child p) (\<lambda>p'.
     bind_err (reparent rest p) (\<lambda>rest'. Inr (child\<lparr>parent_id := p'\<rparr> # rest')))"

definition delete_collection :: "store \<Rightarrow> int \<Rightarrow> (error + bool) \<times> store" where
  "delete_collection s collection_id =
     (case find_by_id s collection_id of
        None \<Rightarrow> (Inr False, s)
      | Some collection \<Rightarrow>
          (case reparent (find_children s collection_id) (parent_id collection) of
             Inl e \<Rightarrow> (Inl e, s)
           | Inr moved \<Rightarrow>
               (Inr True,
                s\<lparr>collections :=
                     sql_delete (\<lambda>r. col_id r = collection_id)
                       (sql_update (\<lambda>r. col_id r \<in> col_id ` set moved)
                          (\<lambda>r. r\<lparr>parent_id := parent_id collection\<rparr>) (collections s)),
                   dashboard_links :=
                     sql_delete (\<lambda>l. link_collection_id l = collection_id) (dashboard_links s),
                   chart_links :=
                     sql_delete (\<lambda>l. link_collection_id l = collection_id) (chart_links s),
                   dataset_links :=
                     sql_delete (\<lambda>l. link_collection_id l = collection_id) (dataset_links s)\<rparr>)))"

section \<open>The membership manager\<close>

text \<open>The link table of an item type, read and written.\<close>

fun links_of :: "store \<Rightarrow> CollectionItemType \<Rightarrow> SpCollectionLink list" where
  "links_of s DASHBOARD = dashboard_links s"
| "links_of s CHART = chart_links s"
| "links_of s DATASET = dataset_links s"

fun set_links :: "store \<Rightarrow> CollectionItemType \<Rightarrow> SpCollectionLink list \<Rightarrow> store" where
  "set_links s DASHBOARD ls = s\<lparr>dashboard_links := ls\<rparr>"
| "set_links s CHART ls = s\<lparr>chart_links := ls\<rparr>"
| "set_links s DATASET ls = s\<lparr>dataset_links := ls\<rparr>"

definition is_link :: "int \<Rightarrow> int \<Rightarrow> SpCollectionLink \<Rightarrow> bool" where
  "is_link collection_id item_id l = (link_collection_id l = collection_id \<and> link_item_id l = item_id)"

definition item_exists_in_collection :: "store \<Rightarrow> int \<Rightarrow> CollectionItemType \<Rightarrow> int \<Rightarrow> bool" where
  "item_exists_in_collection s collection_id item_type item_id =
     (case item_type of
        DASHBOARD \<Rightarrow> \<exists>l \<in> set (dashboard_links s). is_link collection_id item_id l
      | CHART \<Rightarrow> \<exists>l \<in> set (chart_links s). is_link collection_id item_id l
      | DATASET \<Rightarrow> \<exists>l \<in> set (dataset_links s). is_link collection_id item_id l)"

text \<open>
  The foreign key of a link row to the catalogue of its item type
  (\<^verbatim>\<open>dashboards.id\<close>, \<^verbatim>\<open>slices.id\<close>, \<^verbatim>\<open>tables.id\<close>).
\<close>

definition catalogue_has :: "store \<Rightarrow> CollectionItemType \<Rightarrow> int \<Rightarrow> bool" where
  "catalogue_has s item_type item_id =
     (case item_type of
        DASHBOARD \<Rightarrow> \<exists>d \<in> set (dashboards s). dashboard_id d = item_id
      | CHART \<Rightarrow> \<exists>c \<in> set (charts s). chart_id c = item_id
      | DATASET \<Rightarrow> \<exists>t \<in> set (datasets s). dataset_id t = item_id)"

text \<open>The largest value of an \<^verbatim>\<open>Integer\<close> column, a signed integer of 32 bits.\<close>

definition INTEGER_MAX :: int where
  "INTEGER_MAX = 2147483647"

text \<open>
  \<^verbatim>\<open>add_item_to_collection\<close>. The item type is a member of the enumeration, so
  \<^verbatim>\<open>link_model\<close> is always set and the \<^verbatim>\<open>ValueError\<close> of the source has no input.
  The commit meets no unique constraint, the link having just been found absent. It
  writes the collection's row first and refuses a count beyond the column's range (an
  error the handler does not catch); it then inserts the link and refuses one whose item
  is not in the catalogue: the \<^verbatim>\<open>IntegrityError\<close> names the foreign key and no
  \<^verbatim>\<open>uq_collection_\<close> constraint, so the handler rolls back and raises it again. Either
  way nothing is committed.
\<close>

definition add_item_to_collection ::
  "store \<Rightarrow> int \<Rightarrow> CollectionItemType \<Rightarrow> int \<Rightarrow> User option \<Rightarrow> (error + bool) \<times> store" where
  "add_item_to_collection s collection_id item_type item_id created_by =
     (case find_by_id s collection_id of
        None \<Rightarrow> (Inl CollectionNotFoundError, s)
      | Some collection \<Rightarrow>
          if item_exists_in_collection s collection_id item_type item_id
          then (Inl CollectionItemAlreadyExistsError, s)
          else
            (let link_model = \<lparr>link_collection_id = collection_id, link_item_id = item_id,
                               link_created_by_fk = map_option user_id created_by\<rparr>;
                 s1 = set_links s item_type (links_of s item_type @ [link_model]);
                 s2 = s1\<lparr>collections :=
                          sql_update (\<lambda>r. col_id r = collection_id)
                            (\<lambda>r. r\<lparr>item_count := item_count collection + 1\<rparr>) (collections s1)\<rparr>
             in if INTEGER_MAX < item_count collection + 1 then (Inl DataError, s)
                else if \<not> catalogue_has s item_type item_id then (Inl IntegrityError, s)
                else (Inr True, s2)))"

text \<open>\<^verbatim>\<open>remove_item_from_collection\<close>; \<^verbatim>\<open>link_query.first()\<close> is the first matching row.\<close>

definition remove_item_from_collection ::
  "store \<Rightarrow> int \<Rightarrow> CollectionItemType \<Rightarrow> int \<Rightarrow> (error + bool) \<times> store" where
  "remove_item_from_collection s collection_id item_type item_id =
     (case find_by_id s collection_id of
        None \<Rightarrow> (Inl CollectionNotFoundError, s)
      | Some collection \<Rightarrow>
          (case find (is_link collection_id item_id) (links_of s item_type) of
             None \<Rightarrow> (Inl CollectionItemNotFoundError, s)
           | Some link \<Rightarrow>
               (let s1 = set_links s item_type
                           (delete_first (is_link collection_id item_id) (links_of s item_type));
                    s2 = s1\<lparr>collections :=
                             sql_update (\<lambda>r. col_id r = collection_id)
                               (\<lambda>r. r\<lparr>item_count := max 0 (item_count collection - 1)\<rparr>)
                               (collections s1)\<rparr>
                in (Inr True, s2))))"

text \<open>
  \<^verbatim>\<open>get_collection_items\<close>. A limit or an offset that is \<^verbatim>\<open>None\<close> or \<^verbatim>\<open>0\<close> is not
  applied; the query skips \<open>offset\<close> rows and then keeps \<open>limit\<close> rows. Both are
  natural numbers: what a negative one does is the database engine's. An entry of a
  bucket carries the fields of the catalogue row it is read from.
\<close>

definition paginate :: "nat option \<Rightarrow> nat option \<Rightarrow> 'r list \<Rightarrow> 'r list" where
  "paginate limit offset rows =
     (let skipped = (case offset of None \<Rightarrow> rows | Some k \<Rightarrow> drop k rows)
      in case limit of
           None \<Rightarrow> skipped
         | Some n \<Rightarrow> if n = 0 then skipped else take n skipped)"

definition links_page :: "int \<Rightarrow> nat option \<Rightarrow> nat option \<Rightarrow> SpCollectionLink list \<Rightarrow> SpCollectionLink list" where
  "links_page collection_id limit offset table =
     paginate limit offset (filter (\<lambda>l. link_collection_id l = collection_id) table)"

text \<open>
  Following the specification's words for the items of a collection: each bucket has the
  limit and the offset applied by itself, to the links of the collection in the table of
  its item type; an offset or a limit that is not given, or is zero, is not applied.
\<close>

definition spec_page :: "nat option \<Rightarrow> nat option \<Rightarrow> 'r list \<Rightarrow> 'r list" where
  "spec_page limit offset rows =
     (let rest = drop (case offset of None \<Rightarrow> 0 | Some k \<Rightarrow> k) rows
      in case limit of None \<Rightarrow> rest | Some n \<Rightarrow> if n = 0 then rest else take n rest)"

record collection_items =
  items_dashboards :: "Dashboard list"
  items_charts :: "Slice list"
  items_datasets :: "SqlaTable list"
  total_count :: int

definition get_collection_items ::
  "store \<Rightarrow> int \<Rightarrow> CollectionItemType option \<Rightarrow> nat option \<Rightarrow> nat option \<Rightarrow>
   error + collection_items" where
  "get_collection_items s collection_id item_type limit offset =
     (case find_by_id s collection_id of
        None \<Rightarrow> Inl CollectionNotFoundError
      | Some collection \<Rightarrow>
          (let ds = (if item_type = None \<or> item_type = Some DASHBOARD
                     then List.map_filter
                            (\<lambda>link. find (\<lambda>d. dashboard_id d = link_item_id link) (dashboards s))
                            (links_page collection_id limit offset (dashboard_links s))
                     else []);
               cs = (if item_type = None \<or> item_type = Some CHART
                     then List.map_filter
                            (\<lambda>link. find (\<lambda>c. chart_id c = link_item_id link) (charts s))
                            (links_page collection_id limit offset (chart_links s))
                     else []);
               ts = (if item_type = None \<or> item_type = Some DATASET
                     then List.map_filter
                            (\<lambda>link. find (\<lambda>t. dataset_id t = link_item_id link) (datasets s))
                            (links_page collection_id limit offset (dataset_links s))
                     else [])
           in Inr \<lparr>items_dashboards = ds, items_charts = cs, items_datasets = ts,
                   total_count = int (length ds) + int (length cs) + int (length ts)\<rparr>))"

section \<open>Stores used as concrete inputs\<close>

definition mk_collection :: "int \<Rightarrow> string \<Rightarrow> string \<Rightarrow> int option \<Rightarrow> SpCollection" where
  "mk_collection i nm sl p =
     \<lparr>col_id = i, uuid = sl, name = nm, slug = sl, description = None, parent_id = p,
      is_official = False, item_count = 0, created_by_fk = None, changed_by_fk = None\<rparr>"

definition mk_store :: "SpCollection list \<Rightarrow> store" where
  "mk_store cs =
     \<lparr>collections = cs, dashboard_links = [], chart_links = [], dataset_links = [],
      dashboards = [], charts = [], datasets = []\<rparr>"

definition chain_store :: store where
  "chain_store = mk_store
     [mk_collection 1 ''A'' ''a'' None,
      mk_collection 2 ''B'' ''b'' (Some 1),
      mk_collection 3 ''C'' ''c'' (Some 2)]"

definition loop_store :: store where
  "loop_store = mk_store
     [mk_collection 1 ''A'' ''a'' (Some 2),
      mk_collection 2 ''B'' ''b'' (Some 3),
      mk_collection 3 ''C'' ''c'' (Some 2)]"

definition forest_store :: store where
  "forest_store = mk_store
     [mk_collection 1 ''A'' ''a'' None,
      mk_collection 2 ''B'' ''b'' None,
      mk_collection 3 ''C'' ''c'' None]"

definition abc_store :: store where
  "abc_store = mk_store
     [mk_collection 1 ''A'' ''a'' (Some 2),
      mk_collection 2 ''B'' ''b'' (Some 3),
      mk_collection 3 ''C'' ''c'' None]"

definition self_store :: store where
  "self_store = mk_store [mk_collection 1 ''A'' ''a'' (Some 1)]"

definition zero_store :: store where
  "zero_store = mk_store [mk_collection 0 ''Z'' ''z'' None]"

definition family_store :: store where
  "family_store = mk_store
     [mk_collection 1 ''Root'' ''root'' None,
      mk_collection 2 ''Mid'' ''mid'' (Some 1),
      mk_collection 3 ''Kid B'' ''kid-b'' (Some 2),
      mk_collection 4 ''Kid A'' ''kid-a'' (Some 2),
      mk_collection 5 ''Other'' ''other'' (Some 1)]"

definition items_store :: store where
  "items_store =
     \<lparr>collections = [(mk_collection 5 ''Sales'' ''sales'' None)\<lparr>item_count := 3\<rparr>],
      dashboard_links =
        [\<lparr>link_collection_id = 5, link_item_id = 42, link_created_by_fk = None\<rparr>,
         \<lparr>link_collection_id = 5, link_item_id = 43, link_created_by_fk = None\<rparr>,
         \<lparr>link_collection_id = 5, link_item_id = 44, link_created_by_fk = None\<rparr>],
      chart_links = [], dataset_links = [],
      dashboards =
        [\<lparr>dashboard_id = 42, dashboard_title = ''Revenue'', dashboard_slug = None,
          dashboard_url = ''/superset/dashboard/42/''\<rparr>,
         \<lparr>dashboard_id = 44, dashboard_title = ''Churn'', dashboard_slug = None,
          dashboard_url = ''/superset/dashboard/44/''\<rparr>],
      charts = [], datasets = []\<rparr>"

definition sales_store :: store where
  "sales_store = mk_store [mk_collection 5 ''Sales'' ''sales'' None]"

definition catalogue_store :: store where
  "catalogue_store =
     \<lparr>collections = [mk_collection 5 ''Sales'' ''sales'' None],
      dashboard_links = [], chart_links = [], dataset_links = [],
      dashboards =
        [\<lparr>dashboard_id = 42, dashboard_title = ''Revenue'', dashboard_slug = None,
          dashboard_url = ''/superset/dashboard/42/''\<rparr>],
      charts = [], datasets = []\<rparr>"

definition full_count_store :: store where
  "full_count_store =
     catalogue_store\<lparr>collections :=
       [(mk_collection 5 ''Sales'' ''sales'' None)\<lparr>item_count := 2147483647\<rparr>]\<rparr>"

definition two_roots_store :: store where
  "two_roots_store = mk_store
     [(mk_collection 2 ''Beta'' ''beta'' None)\<lparr>item_count := 4\<rparr>,
      mk_collection 1 ''Alpha'' ''alpha'' None,
      mk_collection 3 ''Kid'' ''kid'' (Some 1)]"

definition empty_count_store :: store where
  "empty_count_store =
     \<lparr>collections = [mk_collection 5 ''Sales'' ''sales'' None],
      dashboard_links = [\<lparr>link_collection_id = 5, link_item_id = 42, link_created_by_fk = None\<rparr>],
      chart_links = [], dataset_links = [], dashboards = [], charts = [], datasets = []\<rparr>"

section \<open>The cycle check: termination and what it reports\<close>

lemma parent_chain_falsy: "\<not> truthy c \<Longrightarrow> parent_chain s c n = None"
  by (cases n; cases c) auto

lemma parent_chain_add:
  "parent_chain s c (n + m) = parent_chain s (parent_chain s c n) m"
proof (induction n arbitrary: c)
  case 0
  show ?case by (cases "truthy c") (simp_all add: parent_chain_falsy)
next
  case (Suc n)
  show ?case
  proof (cases c)
    case None
    then show ?thesis by (simp add: parent_chain_falsy)
  next
    case (Some x)
    then show ?thesis using Suc by (simp add: parent_chain_falsy)
  qed
qed

lemma parent_chain_not_zero: "parent_chain s c n \<noteq> Some 0"
  by (induction n arbitrary: c) (auto split: option.splits)

lemma parent_chain_None_stays:
  "parent_chain s c n = None \<Longrightarrow> parent_chain s c (n + m) = None"
  by (simp add: parent_chain_add parent_chain_falsy)

lemma parent_chain_period:
  assumes "parent_chain s c k = parent_chain s c 0"
  shows "parent_chain s c (j * k) = parent_chain s c 0"
proof (induction j)
  case 0
  show ?case by simp
next
  case (Suc j)
  have "parent_chain s c (Suc j * k) = parent_chain s c (j * k + k)" by (simp add: add.commute)
  also have "\<dots> = parent_chain s (parent_chain s c (j * k)) k" by (rule parent_chain_add)
  also have "\<dots> = parent_chain s (parent_chain s c 0) k" by (simp only: Suc)
  also have "\<dots> = parent_chain s c (0 + k)" by (simp only: parent_chain_add)
  finally show ?case using assms by simp
qed

lemma parent_chain_revisit_never_ends:
  assumes k: "0 < k" and eq: "parent_chain s c k = parent_chain s c 0"
    and live: "parent_chain s c 0 \<noteq> None"
  shows "parent_chain s c n \<noteq> None"
proof
  assume "parent_chain s c n = None"
  then have "parent_chain s c (n + (n * k - n)) = None" by (rule parent_chain_None_stays)
  moreover have "n + (n * k - n) = n * k" using k by (cases k) simp_all
  ultimately have "parent_chain s c (n * k) = None" by simp
  with parent_chain_period [OF eq, of n] live show False by simp
qed

lemma has_cycle_loop_iff:
  "has_cycle_loop s self_id c V \<longleftrightarrow>
     (\<exists>n x. parent_chain s c n = Some x \<and> (x \<in> V \<or> Some x = self_id)) \<or>
     (\<forall>n. parent_chain s c n \<noteq> None)"
proof (induction s self_id c V rule: has_cycle_loop.induct)
  case (1 s self_id current_id visited)
  show ?case
  proof (cases "truthy current_id")
    case False
    then have "\<not> has_cycle_loop s self_id current_id visited"
      by (cases current_id) auto
    moreover from False have "\<And>n. parent_chain s current_id n = None"
      by (rule parent_chain_falsy)
    ultimately show ?thesis by simp
  next
    case True
    then obtain x where x: "current_id = Some x" "x \<noteq> 0"
      by (cases current_id) auto
    have c0: "parent_chain s current_id 0 = Some x" using x by simp
    have cS: "\<And>m. parent_chain s current_id (Suc m) = parent_chain s (parent_of s x) m"
      using x by simp
    show ?thesis
    proof (cases "x \<in> visited \<or> Some x = self_id")
      case True
      then have "has_cycle_loop s self_id current_id visited" using x by auto
      moreover have "\<exists>n y. parent_chain s current_id n = Some y \<and> (y \<in> visited \<or> Some y = self_id)"
        using c0 True by blast
      ultimately show ?thesis by blast
    next
      case False
      then have step: "has_cycle_loop s self_id current_id visited =
          has_cycle_loop s self_id (parent_of s x) (insert x visited)"
        using x by auto
      have IH: "has_cycle_loop s self_id (parent_of s x) (insert x visited) \<longleftrightarrow>
          (\<exists>n y. parent_chain s (parent_of s x) n = Some y \<and> (y \<in> insert x visited \<or> Some y = self_id)) \<or>
          (\<forall>n. parent_chain s (parent_of s x) n \<noteq> None)"
        using "1.IH" [OF x(1) x(2)] False by auto
      show ?thesis
      proof
        assume "has_cycle_loop s self_id current_id visited"
        with step IH consider
            (hit) m y where "parent_chain s (parent_of s x) m = Some y" "y \<in> visited \<or> Some y = self_id"
          | (again) m where "parent_chain s (parent_of s x) m = Some x"
          | (inf) "\<forall>n. parent_chain s (parent_of s x) n \<noteq> None"
          by auto
        then show "(\<exists>n y. parent_chain s current_id n = Some y \<and> (y \<in> visited \<or> Some y = self_id)) \<or>
            (\<forall>n. parent_chain s current_id n \<noteq> None)"
        proof cases
          case hit
          then have "parent_chain s current_id (Suc m) = Some y" by (simp only: cS)
          with hit(2) show ?thesis by blast
        next
          case again
          from again have "parent_chain s current_id (Suc m) = parent_chain s current_id 0"
            by (simp only: cS c0)
          then have "\<forall>n. parent_chain s current_id n \<noteq> None"
            using parent_chain_revisit_never_ends [of "Suc m" s current_id] c0 by simp
          then show ?thesis by blast
        next
          case inf
          have "parent_chain s current_id n \<noteq> None" for n
            using inf c0 cS by (cases n) simp_all
          then show ?thesis by blast
        qed
      next
        assume "(\<exists>n y. parent_chain s current_id n = Some y \<and> (y \<in> visited \<or> Some y = self_id)) \<or>
            (\<forall>n. parent_chain s current_id n \<noteq> None)"
        then consider
            (hit) n y where "parent_chain s current_id n = Some y" "y \<in> visited \<or> Some y = self_id"
          | (inf) "\<forall>n. parent_chain s current_id n \<noteq> None"
          by blast
        then have "(\<exists>n y. parent_chain s (parent_of s x) n = Some y \<and> (y \<in> insert x visited \<or> Some y = self_id)) \<or>
          (\<forall>n. parent_chain s (parent_of s x) n \<noteq> None)"
        proof cases
          case hit
          from hit c0 False obtain m where "n = Suc m" by (cases n) auto
          with hit cS have "parent_chain s (parent_of s x) m = Some y" by simp
          with hit(2) show ?thesis by blast
        next
          case inf
          have "parent_chain s (parent_of s x) n \<noteq> None" for n
            using inf cS [of n] by metis
          then show ?thesis by blast
        qed
        with step IH show "has_cycle_loop s self_id current_id visited" by simp
      qed
    qed
  qed
qed

lemma parent_chain_revisit:
  assumes ij: "i < j" and live: "parent_chain s c i \<noteq> None"
    and eq: "parent_chain s c i = parent_chain s c j"
  shows "parent_chain s c n \<noteq> None"
proof -
  obtain y where y: "parent_chain s c i = Some y" using live by auto
  have y0: "y \<noteq> 0" using y parent_chain_not_zero [of s c i] by auto
  have start: "parent_chain s (Some y) 0 = Some y" using y0 by simp
  have "parent_chain s (Some y) (j - i) = parent_chain s c (i + (j - i))"
    by (simp only: parent_chain_add y)
  also have "\<dots> = Some y" using ij eq y by simp
  finally have per: "parent_chain s (Some y) (j - i) = parent_chain s (Some y) 0"
    using start by simp
  have tail: "parent_chain s (Some y) m \<noteq> None" for m
    using parent_chain_revisit_never_ends [OF _ per] ij start by simp
  show ?thesis
  proof (cases "n < i")
    case True
    show ?thesis
    proof
      assume "parent_chain s c n = None"
      then have "parent_chain s c (n + (i - n)) = None" by (rule parent_chain_None_stays)
      with True live show False by simp
    qed
  next
    case False
    have "parent_chain s c (i + (n - i)) = parent_chain s (Some y) (n - i)"
      by (simp only: parent_chain_add y)
    with False tail [of "n - i"] show ?thesis by simp
  qed
qed

lemma has_cycle_with_parent_iff:
  "has_cycle_with_parent s self_id p \<longleftrightarrow>
     Some p = self_id \<or>
     (\<exists>n x. parent_chain s (Some p) n = Some x \<and> Some x = self_id) \<or>
     (\<forall>n. parent_chain s (Some p) n \<noteq> None)"
  by (simp only: has_cycle_with_parent_def has_cycle_loop_iff) auto

text \<open>
  Claim C6. \<^verbatim>\<open>has_cycle_with_parent\<close> is a total function of the store: its loop is
  defined by well-founded recursion on the ids not yet visited, for every store, also one
  whose parent pointers already run in a circle. What it reports: when the parent chain
  from the candidate comes back to an id it has passed, the answer is a cycle; when the
  chain reaches the collection under validation, the answer is a cycle; when the chain
  ends at a null parent without meeting that collection, the answer is no cycle.
\<close>

theorem has_cycle_with_parent_reports:
  "((\<exists>i j. i < j \<and> parent_chain s (Some p) i \<noteq> None \<and>
            parent_chain s (Some p) i = parent_chain s (Some p) j)
      \<longrightarrow> has_cycle_with_parent s self_id p) \<and>
   ((\<exists>n x. parent_chain s (Some p) n = Some x \<and> Some x = self_id)
      \<longrightarrow> has_cycle_with_parent s self_id p) \<and>
   (Some p \<noteq> self_id \<and> (\<exists>n. parent_chain s (Some p) n = None) \<and>
    (\<forall>n x. parent_chain s (Some p) n = Some x \<longrightarrow> Some x \<noteq> self_id)
      \<longrightarrow> \<not> has_cycle_with_parent s self_id p)"
proof (intro conjI impI)
  assume "\<exists>i j. i < j \<and> parent_chain s (Some p) i \<noteq> None \<and>
            parent_chain s (Some p) i = parent_chain s (Some p) j"
  then have "\<forall>n. parent_chain s (Some p) n \<noteq> None"
    using parent_chain_revisit by blast
  then show "has_cycle_with_parent s self_id p"
    by (simp add: has_cycle_with_parent_iff)
next
  assume "\<exists>n x. parent_chain s (Some p) n = Some x \<and> Some x = self_id"
  then show "has_cycle_with_parent s self_id p"
    by (simp only: has_cycle_with_parent_iff) blast
next
  assume "Some p \<noteq> self_id \<and> (\<exists>n. parent_chain s (Some p) n = None) \<and>
    (\<forall>n x. parent_chain s (Some p) n = Some x \<longrightarrow> Some x \<noteq> self_id)"
  then show "\<not> has_cycle_with_parent s self_id p"
    by (simp only: has_cycle_with_parent_iff) blast
qed

theorem has_cycle_with_parent_reports_witness:
  "has_cycle_with_parent loop_store (Some 9) 1 \<and>
   has_cycle_with_parent chain_store (Some 1) 3 \<and>
   \<not> has_cycle_with_parent chain_store (Some 3) 2"
proof -
  have revisit: "\<exists>i j. i < j \<and> parent_chain loop_store (Some 1) i \<noteq> None \<and>
      parent_chain loop_store (Some 1) i = parent_chain loop_store (Some 1) j"
  proof (intro exI conjI)
    show "(1::nat) < 3" by simp
    show "parent_chain loop_store (Some 1) 1 \<noteq> None" by code_simp
    show "parent_chain loop_store (Some 1) 1 = parent_chain loop_store (Some 1) 3" by code_simp
  qed
  have reach: "\<exists>n x. parent_chain chain_store (Some 3) n = Some x \<and> Some x = Some 1"
  proof (intro exI conjI)
    show "parent_chain chain_store (Some 3) 2 = Some 1" by code_simp
    show "Some (1::int) = Some 1" by simp
  qed
  have ends: "parent_chain chain_store (Some 2) 2 = None" by code_simp
  have never: "Some x \<noteq> Some 3" if "parent_chain chain_store (Some 2) n = Some x" for n x
  proof -
    consider "n = 0" | "n = 1" | "2 \<le> n" by linarith
    then show ?thesis
    proof cases
      case 1
      have "parent_chain chain_store (Some 2) 0 = Some 2" by code_simp
      with 1 that show ?thesis by simp
    next
      case 2
      have "parent_chain chain_store (Some 2) 1 = Some 1" by code_simp
      with 2 that show ?thesis by simp
    next
      case 3
      from 3 have n: "2 + (n - 2) = n" by simp
      have "parent_chain chain_store (Some 2) (2 + (n - 2)) = None"
        using ends by (rule parent_chain_None_stays)
      then have "parent_chain chain_store (Some 2) n = None" by (simp only: n)
      with that show ?thesis by simp
    qed
  qed
  have null: "Some (2::int) \<noteq> Some 3 \<and> (\<exists>n. parent_chain chain_store (Some 2) n = None) \<and>
      (\<forall>n x. parent_chain chain_store (Some 2) n = Some x \<longrightarrow> Some x \<noteq> Some 3)"
  proof (intro conjI allI impI)
    show "Some (2::int) \<noteq> Some 3" by simp
    show "\<exists>n. parent_chain chain_store (Some 2) n = None" using ends by blast
    show "Some x \<noteq> Some 3" if "parent_chain chain_store (Some 2) n = Some x" for n x
      using that by (rule never)
  qed
  show ?thesis
    using has_cycle_with_parent_reports [where s = loop_store and p = 1 and self_id = "Some 9"]
      has_cycle_with_parent_reports [where s = chain_store and p = 3 and self_id = "Some 1"]
      has_cycle_with_parent_reports [where s = chain_store and p = 2 and self_id = "Some 3"]
      revisit reach null
    by blast
qed

section \<open>The tree builder: depth limit and users\<close>

lemma build_tree_node_user_irrelevant:
  "build_tree_node fuel s max_depth u1 c d = build_tree_node fuel s max_depth u2 c d"
proof (induction fuel arbitrary: c d)
  case 0
  show ?case by simp
next
  case (Suc fuel)
  have kids: "(case u of None \<Rightarrow> find_children s (col_id c)
                | Some v \<Rightarrow> filter_by_user_permissions (find_children s (col_id c)) v ''view'')
              = find_children s (col_id c)" for u
    by (cases u) (simp_all add: filter_by_user_permissions_def)
  show ?case
    unfolding build_tree_node.simps Let_def kids Suc.IH [of _ "d + 1"] by (rule refl)
qed

text \<open>
  Claim C10. The user given to \<^verbatim>\<open>get_tree\<close> does not change its result: for every
  store, root, depth limit and fuel, any two users (or none) get the same tree, or both
  calls do not return. The permission filter returns the list it is given, and the access
  check is true of every user and collection.
\<close>

theorem get_tree_user_irrelevant:
  "get_tree fuel s root_id max_depth u1 = get_tree fuel s root_id max_depth u2 \<and>
   filter_by_user_permissions cs u permission = cs \<and>
   user_can_access_collection u c permission"
proof (intro conjI)
  have keep: "filter (\<lambda>root. case u of None \<Rightarrow> True
                | Some v \<Rightarrow> user_can_access_collection v root ''view'') roots = roots" for u roots
    by (cases u) (simp_all add: user_can_access_collection_def)
  show "get_tree fuel s root_id max_depth u1 = get_tree fuel s root_id max_depth u2"
    unfolding get_tree_def Let_def keep
      build_tree_node_user_irrelevant [of fuel s max_depth u1 _ 0 u2] by (rule refl)
  show "filter_by_user_permissions cs u permission = cs"
    by (simp add: filter_by_user_permissions_def)
  show "user_can_access_collection u c permission"
    by (simp add: user_can_access_collection_def)
qed

theorem get_tree_user_irrelevant_witness:
  "get_tree 5 chain_store None None (Some \<lparr>user_id = 1\<rparr>) = get_tree 5 chain_store None None None"
  using get_tree_user_irrelevant [of 5 chain_store None None "Some \<lparr>user_id = 1\<rparr>" None]
  by (rule conjunct1)

lemma count_list_insort_key:
  "count_list (insort_key f x xs) y = count_list (x # xs) y"
  by (induction xs) auto

lemma count_list_sort_key: "count_list (sort_key f xs) y = count_list xs y"
  by (induction xs) (auto simp: count_list_insort_key)

lemma those_map_Some: "those (map (\<lambda>c. Some (f c)) xs) = Some (map f xs)"
  by (induction xs) simp_all

text \<open>
  Claim C8. With \<^verbatim>\<open>max_depth = 0\<close> and no root id, \<^verbatim>\<open>get_tree\<close> returns, whatever
  the forest and the user, one node per root collection, in the order of
  \<^verbatim>\<open>find_root_collections\<close>: the node carries the id, uuid, name, slug, description,
  official flag and item count of its root and the number of the root's direct links, its
  depth is 0 and it has no children. The roots are the rows with a null parent, each as
  often as the table has it, sorted by name. A call stack of depth one suffices.
\<close>

theorem get_tree_depth_zero:
  "\<exists>nodes. get_tree (Suc fuel) s None (Some 0) user = Some nodes \<and>
     map node_id nodes = map col_id (find_root_collections s) \<and>
     map node_uuid nodes = map uuid (find_root_collections s) \<and>
     map node_name nodes = map name (find_root_collections s) \<and>
     map node_slug nodes = map slug (find_root_collections s) \<and>
     map node_description nodes = map description (find_root_collections s) \<and>
     map node_is_official nodes = map is_official (find_root_collections s) \<and>
     map node_item_count nodes = map item_count (find_root_collections s) \<and>
     map node_total_item_count nodes =
       map (\<lambda>c. int (length (filter (\<lambda>l. link_collection_id l = col_id c) (dashboard_links s))) +
                int (length (filter (\<lambda>l. link_collection_id l = col_id c) (chart_links s))) +
                int (length (filter (\<lambda>l. link_collection_id l = col_id c) (dataset_links s))))
         (find_root_collections s) \<and>
     map node_depth nodes = map (\<lambda>c. 0) (find_root_collections s) \<and>
     map node_children nodes = map (\<lambda>c. []) (find_root_collections s) \<and>
     nodes = map (\<lambda>c. make_node s c 0 []) (find_root_collections s) \<and>
     set (find_root_collections s) = {c \<in> set (collections s). parent_id c = None} \<and>
     (\<forall>c. count_list (find_root_collections s) c =
          count_list (filter (\<lambda>c. parent_id c = None) (collections s)) c) \<and>
     length (find_root_collections s) =
       length (filter (\<lambda>c. parent_id c = None) (collections s)) \<and>
     sorted (map name (find_root_collections s))"
proof -
  define nodes where "nodes = map (\<lambda>c. make_node s c 0 []) (find_root_collections s)"
  have keep: "filter (\<lambda>root. case user of None \<Rightarrow> True
                | Some v \<Rightarrow> user_can_access_collection v root ''view'') roots = roots" for roots
    by (cases user) (simp_all add: user_can_access_collection_def)
  have res: "get_tree (Suc fuel) s None (Some 0) user = Some nodes"
    unfolding get_tree_def Let_def keep nodes_def by (simp add: those_map_Some)
  have fields: "map node_id nodes = map col_id (find_root_collections s)"
    "map node_uuid nodes = map uuid (find_root_collections s)"
    "map node_name nodes = map name (find_root_collections s)"
    "map node_slug nodes = map slug (find_root_collections s)"
    "map node_description nodes = map description (find_root_collections s)"
    "map node_is_official nodes = map is_official (find_root_collections s)"
    "map node_item_count nodes = map item_count (find_root_collections s)"
    "map node_depth nodes = map (\<lambda>c. 0) (find_root_collections s)"
    "map node_children nodes = map (\<lambda>c. []) (find_root_collections s)"
    by (simp_all add: nodes_def make_node_def o_def)
  have total: "map node_total_item_count nodes =
       map (\<lambda>c. int (length (filter (\<lambda>l. link_collection_id l = col_id c) (dashboard_links s))) +
                int (length (filter (\<lambda>l. link_collection_id l = col_id c) (chart_links s))) +
                int (length (filter (\<lambda>l. link_collection_id l = col_id c) (dataset_links s))))
         (find_root_collections s)"
    by (simp add: nodes_def make_node_def total_item_count_def o_def)
  have roots: "set (find_root_collections s) = {c \<in> set (collections s). parent_id c = None}"
    by (auto simp: find_root_collections_def)
  have counts: "\<forall>c. count_list (find_root_collections s) c =
          count_list (filter (\<lambda>c. parent_id c = None) (collections s)) c"
    by (simp add: find_root_collections_def count_list_sort_key)
  have len: "length (find_root_collections s) =
       length (filter (\<lambda>c. parent_id c = None) (collections s))"
    by (simp add: find_root_collections_def)
  have ordered: "sorted (map name (find_root_collections s))"
    by (simp add: find_root_collections_def)
  from res fields total roots counts len ordered show ?thesis
    unfolding nodes_def [symmetric] by (intro exI [of _ nodes]) simp
qed

theorem get_tree_depth_zero_witness:
  "\<exists>nodes. get_tree (Suc 0) two_roots_store None (Some 0) None = Some nodes \<and>
     map node_id nodes = [1, 2] \<and> map node_name nodes = [''Alpha'', ''Beta''] \<and>
     map node_slug nodes = [''alpha'', ''beta''] \<and> map node_item_count nodes = [0, 4] \<and>
     map node_depth nodes = [0, 0] \<and> map node_children nodes = [[], []]"
proof -
  have roots: "find_root_collections two_roots_store =
      [mk_collection 1 ''Alpha'' ''alpha'' None,
       (mk_collection 2 ''Beta'' ''beta'' None)\<lparr>item_count := 4\<rparr>]"
    by code_simp
  show ?thesis
    using get_tree_depth_zero [of 0 two_roots_store None]
  proof (elim exE conjE)
    fix nodes
    assume res: "get_tree (Suc 0) two_roots_store None (Some 0) None = Some nodes"
      and f: "map node_id nodes = map col_id (find_root_collections two_roots_store)"
        "map node_name nodes = map name (find_root_collections two_roots_store)"
        "map node_slug nodes = map slug (find_root_collections two_roots_store)"
        "map node_item_count nodes = map item_count (find_root_collections two_roots_store)"
        "map node_depth nodes = map (\<lambda>c. 0) (find_root_collections two_roots_store)"
        "map node_children nodes = map (\<lambda>c. []) (find_root_collections two_roots_store)"
    from f have "map node_id nodes = [1, 2] \<and> map node_name nodes = [''Alpha'', ''Beta''] \<and>
       map node_slug nodes = [''alpha'', ''beta''] \<and> map node_item_count nodes = [0, 4] \<and>
       map node_depth nodes = [0, 0] \<and> map node_children nodes = [[], []]"
      unfolding roots by (simp add: mk_collection_def)
    with res show ?thesis by (intro exI [of _ nodes]) simp
  qed
qed

lemma kids2: "find_children loop_store 2 = [mk_collection 1 ''A'' ''a'' (Some 2), mk_collection 3 ''C'' ''c'' (Some 2)]"
  by code_simp

lemma kids3: "find_children loop_store 3 = [mk_collection 2 ''B'' ''b'' (Some 3)]"
  by code_simp

lemma build_loop_store_never:
  "build_tree_node fuel loop_store None user (mk_collection 2 ''B'' ''b'' (Some 3)) d = None \<and>
   build_tree_node fuel loop_store None user (mk_collection 3 ''C'' ''c'' (Some 2)) d = None"
proof (induction fuel arbitrary: d)
  case 0
  show ?case by simp
next
  case (Suc fuel)
  have kids: "(case user of None \<Rightarrow> cs | Some v \<Rightarrow> filter_by_user_permissions cs v ''view'') = cs" for cs
    by (cases user) (simp_all add: filter_by_user_permissions_def)
  have id2: "col_id (mk_collection 2 ''B'' ''b'' (Some 3)) = 2"
    and id3: "col_id (mk_collection 3 ''C'' ''c'' (Some 2)) = 3"
    by (simp_all add: mk_collection_def)
  have a: "build_tree_node (Suc fuel) loop_store None user (mk_collection 2 ''B'' ''b'' (Some 3)) d = None"
    unfolding build_tree_node.simps Let_def kids id2 kids2
    using Suc.IH [of "d + 1"] by (simp split: option.splits)
  have b: "build_tree_node (Suc fuel) loop_store None user (mk_collection 3 ''C'' ''c'' (Some 2)) d = None"
    unfolding build_tree_node.simps Let_def kids id3 kids3
    using Suc.IH [of "d + 1"] by simp
  from a b show ?case by simp
qed

lemma root2: "find_by_id loop_store 2 = Some (mk_collection 2 ''B'' ''b'' (Some 3))"
  by code_simp

text \<open>
  Claim C2. The recursion of \<^verbatim>\<open>get_tree\<close> has no ceiling of its own. On a store whose
  parent pointers run in a circle (2 under 3, 3 under 2) the call without
  \<^verbatim>\<open>max_depth\<close> returns for no fuel, and the call with \<^verbatim>\<open>max_depth = 11\<close> returns a
  tree with a node at depth 11, beyond \<^verbatim>\<open>MAX_TREE_DEPTH = 10\<close>.
\<close>

theorem get_tree_unbounded:
  "(\<forall>fuel. get_tree fuel loop_store (Some 2) None None = None) \<and>
   (\<exists>t. get_tree 12 loop_store (Some 2) (Some 11) None = Some [t] \<and>
        (\<exists>d \<in> set (depths t). MAX_TREE_DEPTH < d))"
proof (intro conjI allI)
  fix fuel
  show "get_tree fuel loop_store (Some 2) None None = None"
    unfolding get_tree_def Let_def using build_loop_store_never [of fuel None 0]
    by (simp add: root2)
next
  have "case get_tree 12 loop_store (Some 2) (Some 11) None of
          Some [t] \<Rightarrow> 11 \<in> set (depths t) | _ \<Rightarrow> False"
    by code_simp
  then show "\<exists>t. get_tree 12 loop_store (Some 2) (Some 11) None = Some [t] \<and>
      (\<exists>d \<in> set (depths t). MAX_TREE_DEPTH < d)"
    by (force simp: MAX_TREE_DEPTH_def split: option.splits list.splits
          intro: bexI [where x = 11])
qed

section \<open>The repository: updates\<close>

lemma find_by_id_col_id: "find_by_id s i = Some c \<Longrightarrow> col_id c = i"
  by (auto simp: find_by_id_def find_Some_iff)

lemma find_by_id_mem: "find_by_id s i = Some c \<Longrightarrow> c \<in> set (collections s)"
  by (auto simp: find_by_id_def find_Some_iff)

lemma set_name_Inr:
  "set_name c v = Inr c' \<Longrightarrow> c' = c\<lparr>name := (case v of None \<Rightarrow> name c | Some n \<Rightarrow> strip n)\<rparr>"
  by (auto simp: set_name_def bind_err_def validate_name_def split: option.splits if_splits)

lemma set_slug_Inr:
  "set_slug c v = Inr c' \<Longrightarrow>
     c' = c\<lparr>slug := (case v of None \<Rightarrow> slug c | Some g \<Rightarrow> lower (strip g))\<rparr>"
  by (auto simp: set_slug_def bind_err_def validate_slug_def split: option.splits if_splits)

lemma set_description_Inr:
  "set_description c v = Inr c' \<Longrightarrow>
     c' = c\<lparr>description := (case v of None \<Rightarrow> description c | Some d \<Rightarrow> Some d)\<rparr>"
  by (auto simp: set_description_def bind_err_def validate_description_def
      split: option.splits if_splits)

lemma set_parent_id_Inr:
  "set_parent_id c v = Inr c' \<Longrightarrow>
     c' = c\<lparr>parent_id := (case v of None \<Rightarrow> parent_id c | Some p \<Rightarrow> Some p)\<rparr>"
  by (auto simp: set_parent_id_def bind_err_def validate_parent_id_def
      split: option.splits if_splits)

lemma bind_err_Inr: "bind_err m f = Inr y \<Longrightarrow> \<exists>x. m = Inr x \<and> f x = Inr y"
  by (cases m) (simp_all add: bind_err_def)

lemma update_fields_Inr:
  assumes "update_fields c new_name new_slug new_description new_parent_id new_is_official
             changed_by = Inr c'"
  shows "c' = c
      \<lparr>name := (case new_name of None \<Rightarrow> name c | Some n \<Rightarrow> strip n),
       slug := (case new_slug of None \<Rightarrow> slug c | Some g \<Rightarrow> lower (strip g)),
       description := (case new_description of None \<Rightarrow> description c | Some d \<Rightarrow> Some d),
       parent_id := (case new_parent_id of None \<Rightarrow> parent_id c | Some p \<Rightarrow> Some p),
       is_official := (case new_is_official of None \<Rightarrow> is_official c | Some b \<Rightarrow> b),
       changed_by_fk := (case changed_by of None \<Rightarrow> changed_by_fk c | Some u \<Rightarrow> Some (user_id u))\<rparr>"
proof -
  from assms obtain c1 where c1: "set_name c new_name = Inr c1"
    and r1: "bind_err (set_slug c1 new_slug) (\<lambda>c2.
         bind_err (set_description c2 new_description) (\<lambda>c3.
         bind_err (set_parent_id c3 new_parent_id) (\<lambda>c4.
         Inr (set_changed_by (set_is_official c4 new_is_official) changed_by)))) = Inr c'"
    unfolding update_fields_def by (blast dest: bind_err_Inr)
  from r1 obtain c2 where c2: "set_slug c1 new_slug = Inr c2"
    and r2: "bind_err (set_description c2 new_description) (\<lambda>c3.
         bind_err (set_parent_id c3 new_parent_id) (\<lambda>c4.
         Inr (set_changed_by (set_is_official c4 new_is_official) changed_by))) = Inr c'"
    by (blast dest: bind_err_Inr)
  from r2 obtain c3 where c3: "set_description c2 new_description = Inr c3"
    and r3: "bind_err (set_parent_id c3 new_parent_id) (\<lambda>c4.
         Inr (set_changed_by (set_is_official c4 new_is_official) changed_by)) = Inr c'"
    by (blast dest: bind_err_Inr)
  from r3 obtain c4 where c4: "set_parent_id c3 new_parent_id = Inr c4"
    and r4: "c' = set_changed_by (set_is_official c4 new_is_official) changed_by"
    by (auto dest: bind_err_Inr)
  show ?thesis
    unfolding r4 set_parent_id_Inr [OF c4] set_description_Inr [OF c3] set_slug_Inr [OF c2]
      set_name_Inr [OF c1]
    by (simp add: set_changed_by_def set_is_official_def split: option.splits)
qed

lemma find_sql_update_same:
  "find (\<lambda>r. col_id r = i) rows = Some c \<Longrightarrow> col_id c' = i \<Longrightarrow>
   find (\<lambda>r. col_id r = i) (sql_update (\<lambda>r. col_id r = i) (\<lambda>r. c') rows) = Some c'"
  by (induction rows) (auto simp: sql_update_def)

lemma find_sql_update_const_other:
  "col_id c' = i \<Longrightarrow> j \<noteq> i \<Longrightarrow>
   find (\<lambda>r. col_id r = j) (sql_update (\<lambda>r. col_id r = i) (\<lambda>r. c') rows) =
     find (\<lambda>r. col_id r = j) rows"
  by (induction rows) (auto simp: sql_update_def)

lemma update_collection_Inr:
  assumes found: "find_by_id s collection_id = Some c"
    and ok: "update_collection s collection_id new_name new_slug new_description new_parent_id
               new_is_official changed_by = (Inr c', s')"
  shows "update_fields c new_name new_slug new_description new_parent_id new_is_official
             changed_by = Inr c' \<and>
         s' = s\<lparr>collections := sql_update (\<lambda>r. col_id r = collection_id) (\<lambda>r. c') (collections s)\<rparr>"
  using ok unfolding update_collection_def found
  by (auto split: if_splits sum.splits)

text \<open>
  Claim C9. \<^verbatim>\<open>update_collection\<close> is a partial update: after a successful call on an
  existing collection, each of name, slug, description, parent_id and is_official that was
  not supplied has its prior value, and so have the id, the uuid, the item count and the
  creator; a supplied field has the supplied value, as its validator normalises it. The
  updated row is the row stored under the id, every other collection and every link table
  is as before.
\<close>

theorem update_collection_frame:
  assumes found: "find_by_id s collection_id = Some c"
    and ok: "update_collection s collection_id new_name new_slug new_description new_parent_id
               new_is_official changed_by = (Inr c', s')"
  shows "(new_name = None \<longrightarrow> name c' = name c) \<and>
         (new_slug = None \<longrightarrow> slug c' = slug c) \<and>
         (new_description = None \<longrightarrow> description c' = description c) \<and>
         (new_parent_id = None \<longrightarrow> parent_id c' = parent_id c) \<and>
         (new_is_official = None \<longrightarrow> is_official c' = is_official c) \<and>
         (\<forall>n. new_name = Some n \<longrightarrow> name c' = strip n) \<and>
         (\<forall>g. new_slug = Some g \<longrightarrow> slug c' = lower (strip g)) \<and>
         (\<forall>d. new_description = Some d \<longrightarrow> description c' = Some d) \<and>
         (\<forall>p. new_parent_id = Some p \<longrightarrow> parent_id c' = Some p) \<and>
         (\<forall>b. new_is_official = Some b \<longrightarrow> is_official c' = b) \<and>
         col_id c' = col_id c \<and> uuid c' = uuid c \<and> item_count c' = item_count c \<and>
         created_by_fk c' = created_by_fk c \<and>
         find_by_id s' collection_id = Some c' \<and>
         (\<forall>i. i \<noteq> collection_id \<longrightarrow> find_by_id s' i = find_by_id s i) \<and>
         dashboard_links s' = dashboard_links s \<and> chart_links s' = chart_links s \<and>
         dataset_links s' = dataset_links s"
proof -
  note u = update_collection_Inr [OF found ok]
  note f = update_fields_Inr [OF u [THEN conjunct1]]
  have s': "s' = s\<lparr>collections :=
      sql_update (\<lambda>r. col_id r = collection_id) (\<lambda>r. c') (collections s)\<rparr>"
    using u by (rule conjunct2)
  have id: "col_id c' = collection_id"
    using find_by_id_col_id [OF found] by (subst f) simp
  have same: "find_by_id s' collection_id = Some c'"
    using found id unfolding s' find_by_id_def by (simp add: find_sql_update_same)
  have other: "find_by_id s' i = find_by_id s i" if "i \<noteq> collection_id" for i
    using that id unfolding s' find_by_id_def by (simp add: find_sql_update_const_other)
  have fields: "(new_name = None \<longrightarrow> name c' = name c) \<and>
         (new_slug = None \<longrightarrow> slug c' = slug c) \<and>
         (new_description = None \<longrightarrow> description c' = description c) \<and>
         (new_parent_id = None \<longrightarrow> parent_id c' = parent_id c) \<and>
         (new_is_official = None \<longrightarrow> is_official c' = is_official c) \<and>
         (\<forall>n. new_name = Some n \<longrightarrow> name c' = strip n) \<and>
         (\<forall>g. new_slug = Some g \<longrightarrow> slug c' = lower (strip g)) \<and>
         (\<forall>d. new_description = Some d \<longrightarrow> description c' = Some d) \<and>
         (\<forall>p. new_parent_id = Some p \<longrightarrow> parent_id c' = Some p) \<and>
         (\<forall>b. new_is_official = Some b \<longrightarrow> is_official c' = b) \<and>
         col_id c' = col_id c \<and> uuid c' = uuid c \<and> item_count c' = item_count c \<and>
         created_by_fk c' = created_by_fk c"
    by (subst (1 2 3 4 5 6 7 8 9 10 11 12 13 14) f) simp
  have links: "dashboard_links s' = dashboard_links s \<and> chart_links s' = chart_links s \<and>
         dataset_links s' = dataset_links s"
    unfolding s' by simp
  from fields same other links show ?thesis by blast
qed

theorem update_collection_frame_witness:
  "\<exists>c' s'. update_collection chain_store 2 (Some '' Q1 '') None None None None None = (Inr c', s') \<and>
      name c' = ''Q1'' \<and> slug c' = ''b'' \<and> description c' = None \<and> parent_id c' = Some 1 \<and>
      is_official c' = False \<and> find_by_id s' 2 = Some c' \<and>
      find_by_id s' 3 = find_by_id chain_store 3"
proof -
  have found: "find_by_id chain_store 2 = Some (mk_collection 2 ''B'' ''b'' (Some 1))"
    by code_simp
  have "case update_collection chain_store 2 (Some '' Q1 '') None None None None None of
          (Inr c', s') \<Rightarrow> True | _ \<Rightarrow> False"
    by code_simp
  then obtain c' s' where
    ok: "update_collection chain_store 2 (Some '' Q1 '') None None None None None = (Inr c', s')"
    by (auto split: prod.splits sum.splits)
  have strip: "strip '' Q1 '' = ''Q1''" by code_simp
  have "name c' = ''Q1'' \<and> slug c' = ''b'' \<and> description c' = None \<and> parent_id c' = Some 1 \<and>
      is_official c' = False \<and> find_by_id s' 2 = Some c' \<and>
      find_by_id s' 3 = find_by_id chain_store 3"
    using update_collection_frame [OF found ok] strip by (simp add: mk_collection_def)
  with ok show ?thesis by blast
qed

text \<open>
  Claim C1, as the code has it. The check of the slug comes first, and the cycle check is
  made for a new parent that is not zero and differs from the current one. When the slug
  given is held by no other collection, and the new parent id is not zero, is not the
  current parent and has the collection on its parent chain (the new parent may be the
  collection itself), \<^verbatim>\<open>update_collection\<close> raises \<^verbatim>\<open>CollectionCycleError\<close> and the
  store is as it was before the call.
\<close>

theorem update_collection_cycle_rejected:
  assumes found: "find_by_id s collection_id = Some c"
    and slug_free: "\<forall>g e. new_slug = Some g \<and> g \<noteq> [] \<and> g \<noteq> slug c \<and> find_by_slug s g = Some e
                      \<longrightarrow> col_id e = collection_id"
    and parent: "new_parent_id = Some p" "p \<noteq> 0" "parent_id c \<noteq> Some p"
    and reach: "parent_chain s (Some p) n = Some collection_id"
  shows "update_collection s collection_id new_name new_slug new_description new_parent_id
           new_is_official changed_by = (Inl CollectionCycleError, s)"
proof -
  have id: "col_id c = collection_id" using found by (rule find_by_id_col_id)
  have slug_ok: "\<not> (case new_slug of
                None \<Rightarrow> False
              | Some g \<Rightarrow> g \<noteq> [] \<and> g \<noteq> slug c \<and>
                  (case find_by_slug s g of
                     None \<Rightarrow> False
                   | Some existing \<Rightarrow> col_id existing \<noteq> collection_id))"
    using slug_free by (auto split: option.splits)
  have "has_cycle_with_parent s (Some collection_id) p"
    unfolding has_cycle_with_parent_iff using reach by blast
  then have "\<not> can_be_moved_to s (Some (col_id c)) (Some p)"
    by (simp add: can_be_moved_to_def id)
  then have cyc: "(case new_parent_id of
                     None \<Rightarrow> False
                   | Some p \<Rightarrow> Some p \<noteq> parent_id c \<and> p \<noteq> 0 \<and>
                       \<not> can_be_moved_to s (Some (col_id c)) (Some p))"
    using parent by auto
  show ?thesis
    unfolding update_collection_def found option.case using slug_ok cyc by (simp only: if_True if_False)
qed

theorem update_collection_cycle_rejected_witness:
  "snd (update_collection
          (snd (update_collection forest_store 1 None None None (Some 2) None None))
          2 None None None (Some 3) None None) = abc_store \<and>
   update_collection abc_store 3 None None None (Some 1) None None =
     (Inl CollectionCycleError, abc_store) \<and>
   update_collection abc_store 3 None None None (Some 3) None None =
     (Inl CollectionCycleError, abc_store)"
proof (intro conjI)
  show "snd (update_collection
          (snd (update_collection forest_store 1 None None None (Some 2) None None))
          2 None None None (Some 3) None None) = abc_store"
    by code_simp
  have found: "find_by_id abc_store 3 = Some (mk_collection 3 ''C'' ''c'' None)"
    by code_simp
  have free: "\<forall>g e. (None :: string option) = Some g \<and> g \<noteq> [] \<and>
      g \<noteq> slug (mk_collection 3 ''C'' ''c'' None) \<and> find_by_slug abc_store g = Some e
        \<longrightarrow> col_id e = 3"
    by simp
  have root: "parent_id (mk_collection 3 ''C'' ''c'' None) \<noteq> Some p" for p
    by (simp add: mk_collection_def)
  have via: "parent_chain abc_store (Some 1) 2 = Some 3" by code_simp
  have self: "parent_chain abc_store (Some 3) 0 = Some 3" by code_simp
  show "update_collection abc_store 3 None None None (Some 1) None None =
     (Inl CollectionCycleError, abc_store)"
    using update_collection_cycle_rejected [OF found free refl _ root via] by simp
  show "update_collection abc_store 3 None None None (Some 3) None None =
     (Inl CollectionCycleError, abc_store)"
    using update_collection_cycle_rejected [OF found free refl _ root self] by simp
qed

text \<open>
  Three calls whose new parent would make the collection its own ancestor and that do not
  raise \<^verbatim>\<open>CollectionCycleError\<close>: a slug held by another collection is reported first;
  a collection that is already its own parent skips the check and is refused by the
  validator of \<^verbatim>\<open>parent_id\<close>; and so is a parent id of zero.
\<close>

theorem update_collection_cycle_counterexample:
  "find_by_id abc_store 3 \<noteq> None \<and>
   parent_chain abc_store (Some 1) 2 = Some 3 \<and>
   update_collection abc_store 3 None (Some ''a'') None (Some 1) None None =
     (Inl CollectionSlugExistsError, abc_store) \<and>
   find_by_id self_store 1 \<noteq> None \<and>
   update_collection self_store 1 None None None (Some 1) None None = (Inl ValueError, self_store) \<and>
   find_by_id zero_store 0 \<noteq> None \<and>
   update_collection zero_store 0 None None None (Some 0) None None = (Inl ValueError, zero_store)"
  by code_simp

section \<open>The repository: deletion\<close>

lemma reparent_Inr:
  "(\<forall>ch \<in> set cs. p \<noteq> Some (col_id ch)) \<Longrightarrow>
     reparent cs p = Inr (map (\<lambda>ch. ch\<lparr>parent_id := p\<rparr>) cs)"
  by (induction cs) (auto simp: bind_err_def validate_parent_id_def)

lemma set_find_children:
  "set (find_children s p) = {r \<in> set (collections s). parent_id r = Some p}"
  by (auto simp: find_children_def)

lemma distinct_col_id_eq:
  "distinct (map col_id rows) \<Longrightarrow> a \<in> set rows \<Longrightarrow> b \<in> set rows \<Longrightarrow> col_id a = col_id b
     \<Longrightarrow> a = b"
  by (meson distinct_map inj_onD)

lemma filter_other_ids_all:
  "i \<notin> col_id ` set rows \<Longrightarrow> filter (\<lambda>r. col_id r \<noteq> i) rows = rows"
  by (induction rows) auto

lemma length_filter_other_ids:
  "distinct (map col_id rows) \<Longrightarrow> c \<in> set rows \<Longrightarrow>
     length (filter (\<lambda>r. col_id r \<noteq> col_id c) rows) + 1 = length rows"
proof (induction rows)
  case Nil
  then show ?case by simp
next
  case (Cons a rows)
  show ?case
  proof (cases "col_id a = col_id c")
    case True
    with Cons.prems have "col_id c \<notin> col_id ` set rows" by auto
    then show ?thesis using True by (simp add: filter_other_ids_all)
  next
    case False
    with Cons.prems have "c \<in> set rows" "distinct (map col_id rows)" by auto
    with Cons.IH False show ?thesis by simp
  qed
qed

text \<open>
  Claim C3, as the code has it. \<^verbatim>\<open>delete_collection\<close> returns \<^verbatim>\<open>False\<close> and changes
  nothing when no collection has the id. When the collection exists, in a store whose ids
  are a primary key and where the collection's parent is not one of its own children, it
  returns \<^verbatim>\<open>True\<close>, every former child is stored with the deleted collection's former
  parent (possibly null) and otherwise as it was, no row has the deleted id as its parent,
  no row has the deleted id, and every row that was neither the collection nor a child of
  it is kept: one row less in all.
\<close>

theorem delete_collection_promotes_children:
  "(find_by_id s collection_id = None \<longrightarrow> delete_collection s collection_id = (Inr False, s)) \<and>
   (\<forall>c. find_by_id s collection_id = Some c \<and> distinct (map col_id (collections s)) \<and>
        (\<forall>ch \<in> set (collections s). parent_id ch = Some collection_id \<longrightarrow>
           parent_id c \<noteq> Some (col_id ch)) \<longrightarrow>
      (\<exists>s'. delete_collection s collection_id = (Inr True, s') \<and>
         (\<forall>ch \<in> set (collections s). parent_id ch = Some collection_id \<longrightarrow>
            ch\<lparr>parent_id := parent_id c\<rparr> \<in> set (collections s')) \<and>
         (\<forall>r \<in> set (collections s'). parent_id r \<noteq> Some collection_id) \<and>
         (\<forall>r \<in> set (collections s'). col_id r \<noteq> collection_id) \<and>
         (\<forall>r \<in> set (collections s). col_id r \<noteq> collection_id \<and> parent_id r \<noteq> Some collection_id
            \<longrightarrow> r \<in> set (collections s')) \<and>
         length (collections s') + 1 = length (collections s)))"
proof (intro conjI allI impI)
  assume "find_by_id s collection_id = None"
  then show "delete_collection s collection_id = (Inr False, s)"
    by (simp add: delete_collection_def)
next
  fix c
  assume a: "find_by_id s collection_id = Some c \<and> distinct (map col_id (collections s)) \<and>
        (\<forall>ch \<in> set (collections s). parent_id ch = Some collection_id \<longrightarrow>
           parent_id c \<noteq> Some (col_id ch))"
  then have found: "find_by_id s collection_id = Some c"
    and pk: "distinct (map col_id (collections s))"
    and acyc: "\<And>ch. ch \<in> set (collections s) \<Longrightarrow> parent_id ch = Some collection_id \<Longrightarrow>
           parent_id c \<noteq> Some (col_id ch)"
    by blast+
  have id: "col_id c = collection_id" using found by (rule find_by_id_col_id)
  have mem: "c \<in> set (collections s)" using found by (rule find_by_id_mem)
  define kids where "kids = find_children s collection_id"
  have kids: "set kids = {r \<in> set (collections s). parent_id r = Some collection_id}"
    unfolding kids_def by (rule set_find_children)
  define f :: "SpCollection \<Rightarrow> SpCollection" where "f = (\<lambda>r. if col_id r \<in> col_id ` set kids
                          then r\<lparr>parent_id := parent_id c\<rparr> else r)"
  define s' where "s' = s\<lparr>collections :=
      sql_delete (\<lambda>r. col_id r = collection_id)
        (sql_update (\<lambda>r. col_id r \<in> col_id ` set kids)
           (\<lambda>r. r\<lparr>parent_id := parent_id c\<rparr>) (collections s)),
      dashboard_links := sql_delete (\<lambda>l. link_collection_id l = collection_id) (dashboard_links s),
      chart_links := sql_delete (\<lambda>l. link_collection_id l = collection_id) (chart_links s),
      dataset_links := sql_delete (\<lambda>l. link_collection_id l = collection_id) (dataset_links s)\<rparr>"
  have moved: "reparent kids (parent_id c) = Inr (map (\<lambda>ch. ch\<lparr>parent_id := parent_id c\<rparr>) kids)"
    by (rule reparent_Inr) (use kids acyc in auto)
  have res: "delete_collection s collection_id = (Inr True, s')"
    using moved unfolding delete_collection_def found kids_def [symmetric] s'_def
    by (simp add: image_image)
  have rows: "collections s' = filter (\<lambda>r. col_id r \<noteq> collection_id) (map f (collections s))"
    unfolding s'_def f_def sql_delete_def sql_update_def by simp
  have f_id: "col_id (f r) = col_id r" for r by (simp add: f_def)
  have kid_iff: "col_id r \<in> col_id ` set kids \<longleftrightarrow> parent_id r = Some collection_id"
    if "r \<in> set (collections s)" for r
    using that kids distinct_col_id_eq [OF pk] by auto
  have self_not_kid: "parent_id c \<noteq> Some collection_id"
    using acyc [OF mem] id by auto
  have p1: "\<forall>ch \<in> set (collections s). parent_id ch = Some collection_id \<longrightarrow>
            ch\<lparr>parent_id := parent_id c\<rparr> \<in> set (collections s')"
  proof (intro ballI impI)
    fix ch assume ch: "ch \<in> set (collections s)" "parent_id ch = Some collection_id"
    have "col_id ch \<noteq> collection_id"
    proof
      assume "col_id ch = collection_id"
      then have "ch = c" using distinct_col_id_eq [OF pk ch(1) mem] id by simp
      with ch(2) self_not_kid show False by simp
    qed
    moreover have "f ch = ch\<lparr>parent_id := parent_id c\<rparr>"
      using kid_iff [OF ch(1)] ch(2) by (simp add: f_def)
    ultimately show "ch\<lparr>parent_id := parent_id c\<rparr> \<in> set (collections s')"
      unfolding rows using ch(1) by (auto simp: image_iff intro!: bexI [of _ ch])
  qed
  have p2: "\<forall>r \<in> set (collections s'). parent_id r \<noteq> Some collection_id"
  proof
    fix r' assume "r' \<in> set (collections s')"
    then obtain r where r: "r \<in> set (collections s)" "r' = f r" unfolding rows by auto
    show "parent_id r' \<noteq> Some collection_id"
      using kid_iff [OF r(1)] self_not_kid by (auto simp: r(2) f_def)
  qed
  have p3: "\<forall>r \<in> set (collections s'). col_id r \<noteq> collection_id"
    unfolding rows by auto
  have p4: "\<forall>r \<in> set (collections s). col_id r \<noteq> collection_id \<and> parent_id r \<noteq> Some collection_id
            \<longrightarrow> r \<in> set (collections s')"
  proof (intro ballI impI)
    fix r assume r: "r \<in> set (collections s)"
      "col_id r \<noteq> collection_id \<and> parent_id r \<noteq> Some collection_id"
    then have "f r = r" using kid_iff [OF r(1)] by (simp add: f_def)
    then show "r \<in> set (collections s')"
      unfolding rows using r by (auto simp: image_iff intro!: bexI [of _ r])
  qed
  have "length (filter (\<lambda>r. col_id r \<noteq> collection_id) (map f (collections s))) =
      length (filter (\<lambda>r. col_id r \<noteq> collection_id) (collections s))"
    by (simp add: filter_map o_def f_id)
  moreover have "length (filter (\<lambda>r. col_id r \<noteq> collection_id) (collections s)) + 1 =
      length (collections s)"
    using length_filter_other_ids [OF pk mem] id by simp
  ultimately have p5: "length (collections s') + 1 = length (collections s)"
    unfolding rows by simp
  from res p1 p2 p3 p4 p5
  show "\<exists>s'. delete_collection s collection_id = (Inr True, s') \<and>
         (\<forall>ch \<in> set (collections s). parent_id ch = Some collection_id \<longrightarrow>
            ch\<lparr>parent_id := parent_id c\<rparr> \<in> set (collections s')) \<and>
         (\<forall>r \<in> set (collections s'). parent_id r \<noteq> Some collection_id) \<and>
         (\<forall>r \<in> set (collections s'). col_id r \<noteq> collection_id) \<and>
         (\<forall>r \<in> set (collections s). col_id r \<noteq> collection_id \<and> parent_id r \<noteq> Some collection_id
            \<longrightarrow> r \<in> set (collections s')) \<and>
         length (collections s') + 1 = length (collections s)"
    by blast
qed

theorem delete_collection_promotes_children_witness:
  "delete_collection family_store 9 = (Inr False, family_store) \<and>
   (\<exists>s'. delete_collection family_store 2 = (Inr True, s') \<and>
      mk_collection 3 ''Kid B'' ''kid-b'' (Some 1) \<in> set (collections s') \<and>
      mk_collection 4 ''Kid A'' ''kid-a'' (Some 1) \<in> set (collections s') \<and>
      (\<forall>r \<in> set (collections s'). parent_id r \<noteq> Some 2 \<and> col_id r \<noteq> 2) \<and>
      length (collections s') = 4)"
proof
  have "find_by_id family_store 9 = None" by code_simp
  then show "delete_collection family_store 9 = (Inr False, family_store)"
    using delete_collection_promotes_children [of family_store 9] by blast
next
  let ?c = "mk_collection 2 ''Mid'' ''mid'' (Some 1)"
  have rows: "collections family_store =
     [mk_collection 1 ''Root'' ''root'' None,
      mk_collection 2 ''Mid'' ''mid'' (Some 1),
      mk_collection 3 ''Kid B'' ''kid-b'' (Some 2),
      mk_collection 4 ''Kid A'' ''kid-a'' (Some 2),
      mk_collection 5 ''Other'' ''other'' (Some 1)]"
    by (simp add: family_store_def mk_store_def)
  have found: "find_by_id family_store 2 = Some ?c" by code_simp
  have pk: "distinct (map col_id (collections family_store))"
    by (simp add: rows mk_collection_def)
  have acyc: "\<forall>ch \<in> set (collections family_store). parent_id ch = Some 2 \<longrightarrow>
      parent_id ?c \<noteq> Some (col_id ch)"
    by (simp add: rows mk_collection_def)
  from delete_collection_promotes_children [of family_store 2] found pk acyc
  obtain s' where res: "delete_collection family_store 2 = (Inr True, s')"
    and kids: "\<forall>ch \<in> set (collections family_store). parent_id ch = Some 2 \<longrightarrow>
            ch\<lparr>parent_id := parent_id ?c\<rparr> \<in> set (collections s')"
    and refs: "\<forall>r \<in> set (collections s'). parent_id r \<noteq> Some 2"
    and gone: "\<forall>r \<in> set (collections s'). col_id r \<noteq> 2"
    and len: "length (collections s') + 1 = length (collections family_store)"
    by blast
  have k3: "mk_collection 3 ''Kid B'' ''kid-b'' (Some 1) \<in> set (collections s')"
    using kids [rule_format, of "mk_collection 3 ''Kid B'' ''kid-b'' (Some 2)"]
    by (simp add: rows mk_collection_def)
  have k4: "mk_collection 4 ''Kid A'' ''kid-a'' (Some 1) \<in> set (collections s')"
    using kids [rule_format, of "mk_collection 4 ''Kid A'' ''kid-a'' (Some 2)"]
    by (simp add: rows mk_collection_def)
  have "length (collections s') = 4" using len by (simp add: rows)
  with res k3 k4 refs gone
  show "\<exists>s'. delete_collection family_store 2 = (Inr True, s') \<and>
      mk_collection 3 ''Kid B'' ''kid-b'' (Some 1) \<in> set (collections s') \<and>
      mk_collection 4 ''Kid A'' ''kid-a'' (Some 1) \<in> set (collections s') \<and>
      (\<forall>r \<in> set (collections s'). parent_id r \<noteq> Some 2 \<and> col_id r \<noteq> 2) \<and>
      length (collections s') = 4"
    by blast
qed

text \<open>
  A collection that exists and is not deleted: in a store whose parent pointers run in a
  circle, collection 2 has the children 1 and 3 and is itself the child of 3, so the
  validator of \<^verbatim>\<open>parent_id\<close> refuses to give child 3 the parent 3; the call raises
  \<^verbatim>\<open>ValueError\<close>, and after the rollback no child is re-parented and the row is still
  there.
\<close>

theorem delete_collection_cycle_counterexample:
  "find_by_id loop_store 2 = Some (mk_collection 2 ''B'' ''b'' (Some 3)) \<and>
   distinct (map col_id (collections loop_store)) \<and>
   find_children loop_store 2 =
     [mk_collection 1 ''A'' ''a'' (Some 2), mk_collection 3 ''C'' ''c'' (Some 2)] \<and>
   delete_collection loop_store 2 = (Inl ValueError, loop_store)"
  by code_simp

section \<open>The membership manager: adding and removing items\<close>

lemma links_of_set_links [simp]:
  "links_of (set_links s t ls) t' = (if t' = t then ls else links_of s t')"
  by (cases t; cases t') simp_all

lemma collections_set_links [simp]: "collections (set_links s t ls) = collections s"
  by (cases t) simp_all

lemma links_of_collections_update [simp]:
  "links_of (s\<lparr>collections := rows\<rparr>) t = links_of s t"
  by (cases t) simp_all

lemma item_exists_iff:
  "item_exists_in_collection s collection_id t item_id \<longleftrightarrow>
     (\<exists>l \<in> set (links_of s t). is_link collection_id item_id l)"
  by (cases t) (simp_all add: item_exists_in_collection_def)

lemma find_sql_update_id:
  "(\<And>r. col_id (f r) = col_id r) \<Longrightarrow>
   find (\<lambda>r. col_id r = i) (sql_update (\<lambda>r. col_id r = i) f rows) =
     map_option f (find (\<lambda>r. col_id r = i) rows)"
  by (induction rows) (auto simp: sql_update_def)

lemma find_sql_update_other_id:
  "(\<And>r. col_id (f r) = col_id r) \<Longrightarrow> j \<noteq> i \<Longrightarrow>
   find (\<lambda>r. col_id r = j) (sql_update (\<lambda>r. col_id r = i) f rows) =
     find (\<lambda>r. col_id r = j) rows"
  by (induction rows) (auto simp: sql_update_def)

lemma find_Some_mem: "find P xs = Some x \<Longrightarrow> x \<in> set xs \<and> P x"
  by (auto simp: find_Some_iff)

lemma delete_first_remove1:
  "find P xs = Some x \<Longrightarrow> delete_first P xs = remove1 x xs"
  by (induction xs) (auto split: if_splits dest: find_Some_mem)

text \<open>
  Claim C4, as the code has it. On an existing collection that does not yet hold the item,
  when the item is in the catalogue of its type and the item count is below the maximum
  of its column, the first \<^verbatim>\<open>add_item_to_collection\<close> succeeds: in the store it
  commits, the link table of the item type has exactly one more row, the new link at its
  end, the collection's row differs in nothing but the item count, which is one more,
  and the other link tables, the other rows of the collections and the catalogue are as
  before. The
  second call with the same collection, item type and item id, whoever makes it, raises
  \<^verbatim>\<open>CollectionItemAlreadyExistsError\<close> and leaves that store as it is, so the count has
  grown by one and not by two.
\<close>

theorem add_item_twice:
  assumes found: "find_by_id s collection_id = Some c"
    and fresh: "\<not> item_exists_in_collection s collection_id item_type item_id"
    and present: "catalogue_has s item_type item_id"
    and room: "item_count c < 2147483647"
  shows "\<exists>s1.
      add_item_to_collection s collection_id item_type item_id creator1 = (Inr True, s1) \<and>
      links_of s1 item_type = links_of s item_type @
        [\<lparr>link_collection_id = collection_id, link_item_id = item_id,
          link_created_by_fk = map_option user_id creator1\<rparr>] \<and>
      (\<forall>t. t \<noteq> item_type \<longrightarrow> links_of s1 t = links_of s t) \<and>
      find_by_id s1 collection_id = Some (c\<lparr>item_count := item_count c + 1\<rparr>) \<and>
      (\<forall>i. i \<noteq> collection_id \<longrightarrow> find_by_id s1 i = find_by_id s i) \<and>
      collections s1 =
        map (\<lambda>r. if col_id r = collection_id then r\<lparr>item_count := item_count c + 1\<rparr> else r)
          (collections s) \<and>
      dashboards s1 = dashboards s \<and> charts s1 = charts s \<and> datasets s1 = datasets s \<and>
      add_item_to_collection s1 collection_id item_type item_id creator2 =
        (Inl CollectionItemAlreadyExistsError, s1)"
proof -
  define link where "link = \<lparr>link_collection_id = collection_id, link_item_id = item_id,
          link_created_by_fk = map_option user_id creator1\<rparr>"
  define s1 where "s1 = (set_links s item_type (links_of s item_type @ [link]))
      \<lparr>collections := sql_update (\<lambda>r. col_id r = collection_id)
          (\<lambda>r. r\<lparr>item_count := item_count c + 1\<rparr>) (collections s)\<rparr>"
  define c1 where "c1 = c\<lparr>item_count := item_count c + 1\<rparr>"
  have first: "add_item_to_collection s collection_id item_type item_id creator1 = (Inr True, s1)"
    unfolding add_item_to_collection_def found using fresh present room
    by (simp add: Let_def s1_def link_def INTEGER_MAX_def)
  have links: "links_of s1 item_type = links_of s item_type @ [link]"
    by (simp add: s1_def)
  have others: "\<forall>t. t \<noteq> item_type \<longrightarrow> links_of s1 t = links_of s t"
    by (simp add: s1_def)
  have found1: "find_by_id s1 collection_id = Some c1"
    using found unfolding find_by_id_def s1_def c1_def by (simp add: find_sql_update_id)
  have rest: "\<forall>i. i \<noteq> collection_id \<longrightarrow> find_by_id s1 i = find_by_id s i"
    unfolding find_by_id_def s1_def by (simp add: find_sql_update_other_id)
  have rows: "collections s1 =
        map (\<lambda>r. if col_id r = collection_id then r\<lparr>item_count := item_count c + 1\<rparr> else r)
          (collections s)"
    unfolding s1_def sql_update_def by simp
  have cat: "dashboards s1 = dashboards s \<and> charts s1 = charts s \<and> datasets s1 = datasets s"
    unfolding s1_def by (cases item_type) simp_all
  have "is_link collection_id item_id link" by (simp add: is_link_def link_def)
  then have "item_exists_in_collection s1 collection_id item_type item_id"
    unfolding item_exists_iff links by auto
  then have second: "add_item_to_collection s1 collection_id item_type item_id creator2 =
        (Inl CollectionItemAlreadyExistsError, s1)"
    unfolding add_item_to_collection_def found1 by simp
  from first links others found1 rest rows cat second show ?thesis
    unfolding link_def c1_def by (intro exI [of _ s1]) simp
qed

theorem add_item_twice_witness:
  "\<exists>s1. add_item_to_collection catalogue_store 5 DASHBOARD 42 None = (Inr True, s1) \<and>
      dashboard_links s1 =
        [\<lparr>link_collection_id = 5, link_item_id = 42, link_created_by_fk = None\<rparr>] \<and>
      find_by_id s1 5 = Some ((mk_collection 5 ''Sales'' ''sales'' None)\<lparr>item_count := 1\<rparr>) \<and>
      add_item_to_collection s1 5 DASHBOARD 42 (Some \<lparr>user_id = 7\<rparr>) =
        (Inl CollectionItemAlreadyExistsError, s1)"
proof -
  have found: "find_by_id catalogue_store 5 = Some (mk_collection 5 ''Sales'' ''sales'' None)"
    by code_simp
  have fresh: "\<not> item_exists_in_collection catalogue_store 5 DASHBOARD 42"
    by code_simp
  have present: "catalogue_has catalogue_store DASHBOARD 42"
    by code_simp
  have links: "dashboard_links catalogue_store = []"
    by (simp add: catalogue_store_def)
  have count: "item_count (mk_collection 5 ''Sales'' ''sales'' None) = 0"
    by (simp add: mk_collection_def)
  have room: "item_count (mk_collection 5 ''Sales'' ''sales'' None) < 2147483647"
    by (simp add: count)
  show ?thesis
    using add_item_twice [OF found fresh present room, of None "Some \<lparr>user_id = 7\<rparr>"]
  proof (elim exE conjE)
    fix s1
    assume a: "add_item_to_collection catalogue_store 5 DASHBOARD 42 None = (Inr True, s1)"
      and b: "links_of s1 DASHBOARD = links_of catalogue_store DASHBOARD @
        [\<lparr>link_collection_id = 5, link_item_id = 42,
          link_created_by_fk = map_option user_id None\<rparr>]"
      and c: "find_by_id s1 5 = Some ((mk_collection 5 ''Sales'' ''sales'' None)
        \<lparr>item_count := item_count (mk_collection 5 ''Sales'' ''sales'' None) + 1\<rparr>)"
      and d: "add_item_to_collection s1 5 DASHBOARD 42 (Some \<lparr>user_id = 7\<rparr>) =
        (Inl CollectionItemAlreadyExistsError, s1)"
    from b have b': "dashboard_links s1 =
        [\<lparr>link_collection_id = 5, link_item_id = 42, link_created_by_fk = None\<rparr>]"
      by (simp add: links)
    from c have c': "find_by_id s1 5 =
        Some ((mk_collection 5 ''Sales'' ''sales'' None)\<lparr>item_count := 1\<rparr>)"
      by (simp add: count)
    from a b' c' d show ?thesis by (intro exI [of _ s1]) simp
  qed
qed

text \<open>
  Two first calls on an existing collection that does not hold the item and that do not
  succeed: the item is not in the catalogue, and the commit raises \<^verbatim>\<open>IntegrityError\<close>;
  the item count is at the maximum of its column, and the commit raises
  \<^verbatim>\<open>DataError\<close>. Neither commits anything.
\<close>

theorem add_item_first_call_counterexample:
  "find_by_id sales_store 5 = Some (mk_collection 5 ''Sales'' ''sales'' None) \<and>
   \<not> item_exists_in_collection sales_store 5 DASHBOARD 42 \<and>
   \<not> catalogue_has sales_store DASHBOARD 42 \<and>
   add_item_to_collection sales_store 5 DASHBOARD 42 None = (Inl IntegrityError, sales_store) \<and>
   \<not> item_exists_in_collection full_count_store 5 DASHBOARD 42 \<and>
   catalogue_has full_count_store DASHBOARD 42 \<and>
   add_item_to_collection full_count_store 5 DASHBOARD 42 None = (Inl DataError, full_count_store)"
  by code_simp

text \<open>
  Claim C5. On an existing collection, \<^verbatim>\<open>remove_item_from_collection\<close> raises
  \<^verbatim>\<open>CollectionItemNotFoundError\<close> and leaves the store, its item count and its links, as
  it is when the collection holds no such link. When it does, the call succeeds, one
  matching link row is deleted from the table of the item type and no other, the other
  link tables are as before, and the item count becomes the maximum of 0 and the former
  count less one, which is never negative.
\<close>

theorem remove_item_from_collection_spec:
  assumes found: "find_by_id s collection_id = Some c"
  shows "(\<not> item_exists_in_collection s collection_id item_type item_id \<longrightarrow>
            remove_item_from_collection s collection_id item_type item_id =
              (Inl CollectionItemNotFoundError, s)) \<and>
         (item_exists_in_collection s collection_id item_type item_id \<longrightarrow>
            (\<exists>s' c' link.
               remove_item_from_collection s collection_id item_type item_id = (Inr True, s') \<and>
               link \<in> set (links_of s item_type) \<and> is_link collection_id item_id link \<and>
               links_of s' item_type = remove1 link (links_of s item_type) \<and>
               length (links_of s' item_type) + 1 = length (links_of s item_type) \<and>
               (\<forall>t. t \<noteq> item_type \<longrightarrow> links_of s' t = links_of s t) \<and>
               find_by_id s' collection_id = Some c' \<and>
               item_count c' = max 0 (item_count c - 1) \<and> 0 \<le> item_count c'))"
proof (intro conjI impI)
  assume "\<not> item_exists_in_collection s collection_id item_type item_id"
  then have "find (is_link collection_id item_id) (links_of s item_type) = None"
    unfolding item_exists_iff by (simp add: find_None_iff)
  then show "remove_item_from_collection s collection_id item_type item_id =
              (Inl CollectionItemNotFoundError, s)"
    unfolding remove_item_from_collection_def found by simp
next
  assume "item_exists_in_collection s collection_id item_type item_id"
  then obtain link where link: "find (is_link collection_id item_id) (links_of s item_type) = Some link"
    unfolding item_exists_iff by (cases "find (is_link collection_id item_id) (links_of s item_type)")
      (auto simp: find_None_iff)
  note m = find_Some_mem [OF link]
  define s' where "s' = (set_links s item_type (remove1 link (links_of s item_type)))
      \<lparr>collections := sql_update (\<lambda>r. col_id r = collection_id)
          (\<lambda>r. r\<lparr>item_count := max 0 (item_count c - 1)\<rparr>) (collections s)\<rparr>"
  define c' where "c' = c\<lparr>item_count := max 0 (item_count c - 1)\<rparr>"
  have res: "remove_item_from_collection s collection_id item_type item_id = (Inr True, s')"
    unfolding remove_item_from_collection_def found link
    by (simp add: Let_def s'_def delete_first_remove1 [OF link])
  have links: "links_of s' item_type = remove1 link (links_of s item_type)"
    by (simp add: s'_def)
  have len: "length (links_of s' item_type) + 1 = length (links_of s item_type)"
    unfolding links using m length_pos_if_in_set [of link "links_of s item_type"]
    by (simp add: length_remove1)
  have others: "\<forall>t. t \<noteq> item_type \<longrightarrow> links_of s' t = links_of s t"
    by (simp add: s'_def)
  have found': "find_by_id s' collection_id = Some c'"
    using found unfolding find_by_id_def s'_def c'_def by (simp add: find_sql_update_id)
  have count: "item_count c' = max 0 (item_count c - 1) \<and> 0 \<le> item_count c'"
    by (simp add: c'_def)
  from res m links len others found' count
  show "\<exists>s' c' link.
               remove_item_from_collection s collection_id item_type item_id = (Inr True, s') \<and>
               link \<in> set (links_of s item_type) \<and> is_link collection_id item_id link \<and>
               links_of s' item_type = remove1 link (links_of s item_type) \<and>
               length (links_of s' item_type) + 1 = length (links_of s item_type) \<and>
               (\<forall>t. t \<noteq> item_type \<longrightarrow> links_of s' t = links_of s t) \<and>
               find_by_id s' collection_id = Some c' \<and>
               item_count c' = max 0 (item_count c - 1) \<and> 0 \<le> item_count c'"
    by blast
qed

theorem remove_item_from_collection_spec_witness:
  "remove_item_from_collection items_store 5 DASHBOARD 99 =
     (Inl CollectionItemNotFoundError, items_store) \<and>
   (\<exists>s' c'. remove_item_from_collection empty_count_store 5 DASHBOARD 42 = (Inr True, s') \<and>
      dashboard_links s' = [] \<and> find_by_id s' 5 = Some c' \<and> item_count c' = 0)"
proof
  have found: "find_by_id items_store 5 =
      Some ((mk_collection 5 ''Sales'' ''sales'' None)\<lparr>item_count := 3\<rparr>)"
    by code_simp
  have absent: "\<not> item_exists_in_collection items_store 5 DASHBOARD 99"
    by code_simp
  from remove_item_from_collection_spec [OF found, of DASHBOARD 99] absent
  show "remove_item_from_collection items_store 5 DASHBOARD 99 =
     (Inl CollectionItemNotFoundError, items_store)"
    by blast
next
  have found: "find_by_id empty_count_store 5 = Some (mk_collection 5 ''Sales'' ''sales'' None)"
    by code_simp
  have present: "item_exists_in_collection empty_count_store 5 DASHBOARD 42"
    by code_simp
  have links: "dashboard_links empty_count_store =
      [\<lparr>link_collection_id = 5, link_item_id = 42, link_created_by_fk = None\<rparr>]"
    by (simp add: empty_count_store_def)
  have count: "item_count (mk_collection 5 ''Sales'' ''sales'' None) = 0"
    by (simp add: mk_collection_def)
  from remove_item_from_collection_spec [OF found, of DASHBOARD 42] present
  obtain s' c' link where
    res: "remove_item_from_collection empty_count_store 5 DASHBOARD 42 = (Inr True, s')"
    and mem: "link \<in> set (links_of empty_count_store DASHBOARD)"
    and rest: "links_of s' DASHBOARD = remove1 link (links_of empty_count_store DASHBOARD)"
    and c': "find_by_id s' 5 = Some c'"
      "item_count c' = max 0 (item_count (mk_collection 5 ''Sales'' ''sales'' None) - 1)"
    by blast
  from mem rest have "dashboard_links s' = []" by (simp add: links)
  moreover from c'(2) have "item_count c' = 0" by (simp add: count)
  ultimately show "\<exists>s' c'. remove_item_from_collection empty_count_store 5 DASHBOARD 42 =
      (Inr True, s') \<and> dashboard_links s' = [] \<and> find_by_id s' 5 = Some c' \<and> item_count c' = 0"
    using res c'(1) by blast
qed

section \<open>The membership manager: listing items\<close>

lemma length_map_filter_le: "length (List.map_filter f xs) \<le> length xs"
  by (simp add: List.map_filter_def)

lemma set_map_filter_find:
  "set (List.map_filter (\<lambda>l. find (P l) ys) xs) \<subseteq> set ys"
  by (induction xs) (auto split: option.splits dest: find_Some_mem)

lemma set_if_Nil_subset: "set xs \<subseteq> A \<Longrightarrow> set (if b then xs else []) \<subseteq> A"
  by (cases b) auto

lemma length_paginate_le: "length (paginate limit offset rows) \<le> length rows"
  by (auto simp: paginate_def Let_def split: option.splits)

lemma length_paginate_limit:
  "0 < n \<Longrightarrow> length (paginate (Some n) offset rows) \<le> n"
  by (auto simp: paginate_def Let_def split: option.splits)

lemma length_bucket_le:
  "length (List.map_filter f (links_page collection_id limit offset table)) \<le>
     length (filter (\<lambda>l. link_collection_id l = collection_id) table)"
  unfolding links_page_def
  by (rule order_trans [OF length_map_filter_le length_paginate_le])

lemma length_bucket_limit:
  "0 < n \<Longrightarrow> length (List.map_filter f (links_page collection_id (Some n) offset table)) \<le> n"
  unfolding links_page_def
  by (rule order_trans [OF length_map_filter_le length_paginate_limit])

lemma map_filter_find:
  "List.map_filter (\<lambda>l. find (P l) ys) xs =
     map (\<lambda>l. the (find (P l) ys)) (filter (\<lambda>l. \<exists>y \<in> set ys. P l y) xs)"
  by (induction xs) (auto simp: find_None_iff split: option.splits dest: find_Some_mem)

lemma spec_page_Nil: "spec_page limit offset [] = []"
  by (simp add: spec_page_def split: option.splits)

lemma paginate_spec_page: "paginate limit offset rows = spec_page limit offset rows"
  by (cases offset; cases limit) (simp_all add: paginate_def spec_page_def)

text \<open>
  Claim C7. For an existing collection \<^verbatim>\<open>get_collection_items\<close> returns. A bucket that
  the item type asks for holds, in the order of the links, the catalogue row of every
  link that is on the bucket's own page of the collection's links and whose item exists;
  a bucket not asked for is empty. \<^verbatim>\<open>total_count\<close> is the sum of the lengths of these
  three buckets. Every entry of a bucket is a row of the item catalogue, a positive limit
  bounds each bucket by itself, and the total is at most, and not in general equal to,
  the number of link rows of the collection.
\<close>

theorem get_collection_items_total_count:
  assumes found: "find_by_id s collection_id = Some c"
  shows "\<exists>items. get_collection_items s collection_id item_type limit offset = Inr items \<and>
     items_dashboards items =
       (if item_type = None \<or> item_type = Some DASHBOARD
        then map (\<lambda>l. the (find (\<lambda>d. dashboard_id d = link_item_id l) (dashboards s)))
               (filter (\<lambda>l. \<exists>d \<in> set (dashboards s). dashboard_id d = link_item_id l)
                  (spec_page limit offset
                     (filter (\<lambda>l. link_collection_id l = collection_id) (dashboard_links s))))
        else []) \<and>
     items_charts items =
       (if item_type = None \<or> item_type = Some CHART
        then map (\<lambda>l. the (find (\<lambda>d. chart_id d = link_item_id l) (charts s)))
               (filter (\<lambda>l. \<exists>d \<in> set (charts s). chart_id d = link_item_id l)
                  (spec_page limit offset
                     (filter (\<lambda>l. link_collection_id l = collection_id) (chart_links s))))
        else []) \<and>
     items_datasets items =
       (if item_type = None \<or> item_type = Some DATASET
        then map (\<lambda>l. the (find (\<lambda>d. dataset_id d = link_item_id l) (datasets s)))
               (filter (\<lambda>l. \<exists>d \<in> set (datasets s). dataset_id d = link_item_id l)
                  (spec_page limit offset
                     (filter (\<lambda>l. link_collection_id l = collection_id) (dataset_links s))))
        else []) \<and>
     total_count items = int (length (items_dashboards items)) +
       int (length (items_charts items)) + int (length (items_datasets items)) \<and>
     set (items_dashboards items) \<subseteq> set (dashboards s) \<and>
     set (items_charts items) \<subseteq> set (charts s) \<and>
     set (items_datasets items) \<subseteq> set (datasets s) \<and>
     (\<forall>n. limit = Some n \<and> 0 < n \<longrightarrow>
        length (items_dashboards items) \<le> n \<and> length (items_charts items) \<le> n \<and>
        length (items_datasets items) \<le> n) \<and>
     total_count items \<le>
       int (length (filter (\<lambda>l. link_collection_id l = collection_id) (dashboard_links s))) +
       int (length (filter (\<lambda>l. link_collection_id l = collection_id) (chart_links s))) +
       int (length (filter (\<lambda>l. link_collection_id l = collection_id) (dataset_links s)))"
proof -
  define ds where "ds = (if item_type = None \<or> item_type = Some DASHBOARD
                     then List.map_filter
                            (\<lambda>link. find (\<lambda>d. dashboard_id d = link_item_id link) (dashboards s))
                            (links_page collection_id limit offset (dashboard_links s))
                     else [])"
  define cs where "cs = (if item_type = None \<or> item_type = Some CHART
                     then List.map_filter
                            (\<lambda>link. find (\<lambda>c. chart_id c = link_item_id link) (charts s))
                            (links_page collection_id limit offset (chart_links s))
                     else [])"
  define ts where "ts = (if item_type = None \<or> item_type = Some DATASET
                     then List.map_filter
                            (\<lambda>link. find (\<lambda>t. dataset_id t = link_item_id link) (datasets s))
                            (links_page collection_id limit offset (dataset_links s))
                     else [])"
  define items where "items = \<lparr>items_dashboards = ds, items_charts = cs, items_datasets = ts,
      total_count = int (length ds) + int (length cs) + int (length ts)\<rparr>"
  have res: "get_collection_items s collection_id item_type limit offset = Inr items"
    unfolding get_collection_items_def found
    by (simp add: Let_def items_def ds_def cs_def ts_def)
  have d1: "ds =
       (if item_type = None \<or> item_type = Some DASHBOARD
        then map (\<lambda>l. the (find (\<lambda>d. dashboard_id d = link_item_id l) (dashboards s)))
               (filter (\<lambda>l. \<exists>d \<in> set (dashboards s). dashboard_id d = link_item_id l)
                  (spec_page limit offset
                     (filter (\<lambda>l. link_collection_id l = collection_id) (dashboard_links s))))
        else [])"
    unfolding ds_def links_page_def paginate_spec_page
      map_filter_find [of "\<lambda>l d. dashboard_id d = link_item_id l"] by (rule refl)
  have d2: "cs =
       (if item_type = None \<or> item_type = Some CHART
        then map (\<lambda>l. the (find (\<lambda>d. chart_id d = link_item_id l) (charts s)))
               (filter (\<lambda>l. \<exists>d \<in> set (charts s). chart_id d = link_item_id l)
                  (spec_page limit offset
                     (filter (\<lambda>l. link_collection_id l = collection_id) (chart_links s))))
        else [])"
    unfolding cs_def links_page_def paginate_spec_page
      map_filter_find [of "\<lambda>l d. chart_id d = link_item_id l"] by (rule refl)
  have d3: "ts =
       (if item_type = None \<or> item_type = Some DATASET
        then map (\<lambda>l. the (find (\<lambda>d. dataset_id d = link_item_id l) (datasets s)))
               (filter (\<lambda>l. \<exists>d \<in> set (datasets s). dataset_id d = link_item_id l)
                  (spec_page limit offset
                     (filter (\<lambda>l. link_collection_id l = collection_id) (dataset_links s))))
        else [])"
    unfolding ts_def links_page_def paginate_spec_page
      map_filter_find [of "\<lambda>l d. dataset_id d = link_item_id l"] by (rule refl)
  have sub1: "set ds \<subseteq> set (dashboards s)"
    unfolding ds_def
    by (rule set_if_Nil_subset) (rule set_map_filter_find)
  have sub2: "set cs \<subseteq> set (charts s)"
    unfolding cs_def
    by (rule set_if_Nil_subset) (rule set_map_filter_find)
  have sub3: "set ts \<subseteq> set (datasets s)"
    unfolding ts_def
    by (rule set_if_Nil_subset) (rule set_map_filter_find)
  have lim: "\<forall>n. limit = Some n \<and> 0 < n \<longrightarrow>
      length ds \<le> n \<and> length cs \<le> n \<and> length ts \<le> n"
    unfolding ds_def cs_def ts_def by (simp add: length_bucket_limit)
  have "length ds \<le> length (filter (\<lambda>l. link_collection_id l = collection_id) (dashboard_links s))"
    unfolding ds_def by (simp add: length_bucket_le)
  moreover have "length cs \<le> length (filter (\<lambda>l. link_collection_id l = collection_id) (chart_links s))"
    unfolding cs_def by (simp add: length_bucket_le)
  moreover have "length ts \<le> length (filter (\<lambda>l. link_collection_id l = collection_id) (dataset_links s))"
    unfolding ts_def by (simp add: length_bucket_le)
  ultimately have le: "int (length ds) + int (length cs) + int (length ts) \<le>
       int (length (filter (\<lambda>l. link_collection_id l = collection_id) (dashboard_links s))) +
       int (length (filter (\<lambda>l. link_collection_id l = collection_id) (chart_links s))) +
       int (length (filter (\<lambda>l. link_collection_id l = collection_id) (dataset_links s)))"
    by simp
  have sel: "items_dashboards items = ds" "items_charts items = cs" "items_datasets items = ts"
    "total_count items = int (length ds) + int (length cs) + int (length ts)"
    by (simp_all add: items_def)
  show ?thesis
  proof (intro exI [of _ items] conjI)
    show "get_collection_items s collection_id item_type limit offset = Inr items" by (rule res)
    show "items_dashboards items =
       (if item_type = None \<or> item_type = Some DASHBOARD
        then map (\<lambda>l. the (find (\<lambda>d. dashboard_id d = link_item_id l) (dashboards s)))
               (filter (\<lambda>l. \<exists>d \<in> set (dashboards s). dashboard_id d = link_item_id l)
                  (spec_page limit offset
                     (filter (\<lambda>l. link_collection_id l = collection_id) (dashboard_links s))))
        else [])"
      unfolding sel by (rule d1)
    show "items_charts items =
       (if item_type = None \<or> item_type = Some CHART
        then map (\<lambda>l. the (find (\<lambda>d. chart_id d = link_item_id l) (charts s)))
               (filter (\<lambda>l. \<exists>d \<in> set (charts s). chart_id d = link_item_id l)
                  (spec_page limit offset
                     (filter (\<lambda>l. link_collection_id l = collection_id) (chart_links s))))
        else [])"
      unfolding sel by (rule d2)
    show "items_datasets items =
       (if item_type = None \<or> item_type = Some DATASET
        then map (\<lambda>l. the (find (\<lambda>d. dataset_id d = link_item_id l) (datasets s)))
               (filter (\<lambda>l. \<exists>d \<in> set (datasets s). dataset_id d = link_item_id l)
                  (spec_page limit offset
                     (filter (\<lambda>l. link_collection_id l = collection_id) (dataset_links s))))
        else [])"
      unfolding sel by (rule d3)
    show "total_count items = int (length (items_dashboards items)) +
       int (length (items_charts items)) + int (length (items_datasets items))"
      unfolding sel by (rule refl)
    show "set (items_dashboards items) \<subseteq> set (dashboards s)" unfolding sel by (rule sub1)
    show "set (items_charts items) \<subseteq> set (charts s)" unfolding sel by (rule sub2)
    show "set (items_datasets items) \<subseteq> set (datasets s)" unfolding sel by (rule sub3)
    show "\<forall>n. limit = Some n \<and> 0 < n \<longrightarrow>
        length (items_dashboards items) \<le> n \<and> length (items_charts items) \<le> n \<and>
        length (items_datasets items) \<le> n"
      unfolding sel by (rule lim)
    show "total_count items \<le>
       int (length (filter (\<lambda>l. link_collection_id l = collection_id) (dashboard_links s))) +
       int (length (filter (\<lambda>l. link_collection_id l = collection_id) (chart_links s))) +
       int (length (filter (\<lambda>l. link_collection_id l = collection_id) (dataset_links s)))"
      unfolding sel by (rule le)
  qed
qed

theorem get_collection_items_total_count_witness:
  "\<exists>items. get_collection_items items_store 5 None (Some 2) (Some 1) = Inr items \<and>
     map dashboard_id (items_dashboards items) = [44] \<and>
     items_charts items = [] \<and> items_datasets items = [] \<and> total_count items = 1 \<and>
     length (filter (\<lambda>l. link_collection_id l = 5) (dashboard_links items_store)) = 3"
proof -
  have found: "find_by_id items_store 5 =
      Some ((mk_collection 5 ''Sales'' ''sales'' None)\<lparr>item_count := 3\<rparr>)"
    by code_simp
  have page: "map (\<lambda>l. the (find (\<lambda>d. dashboard_id d = link_item_id l) (dashboards items_store)))
      (filter (\<lambda>l. \<exists>d \<in> set (dashboards items_store). dashboard_id d = link_item_id l)
         (spec_page (Some 2) (Some 1)
            (filter (\<lambda>l. link_collection_id l = 5) (dashboard_links items_store)))) =
      [\<lparr>dashboard_id = 44, dashboard_title = ''Churn'', dashboard_slug = None,
        dashboard_url = ''/superset/dashboard/44/''\<rparr>]"
    by code_simp
  have none: "chart_links items_store = []" "dataset_links items_store = []"
    by (simp_all add: items_store_def)
  have all: "length (filter (\<lambda>l. link_collection_id l = 5) (dashboard_links items_store)) = 3"
    by code_simp
  show ?thesis
    using get_collection_items_total_count [OF found, of None "Some 2" "Some 1"]
  proof (elim exE conjE)
    fix items
    assume res: "get_collection_items items_store 5 None (Some 2) (Some 1) = Inr items"
      and d: "items_dashboards items =
         (if (None :: CollectionItemType option) = None \<or> None = Some DASHBOARD
          then map (\<lambda>l. the (find (\<lambda>d. dashboard_id d = link_item_id l) (dashboards items_store)))
                 (filter (\<lambda>l. \<exists>d \<in> set (dashboards items_store). dashboard_id d = link_item_id l)
                    (spec_page (Some 2) (Some 1)
                       (filter (\<lambda>l. link_collection_id l = 5) (dashboard_links items_store))))
          else [])"
      and c: "items_charts items =
         (if (None :: CollectionItemType option) = None \<or> None = Some CHART
          then map (\<lambda>l. the (find (\<lambda>d. chart_id d = link_item_id l) (charts items_store)))
                 (filter (\<lambda>l. \<exists>d \<in> set (charts items_store). chart_id d = link_item_id l)
                    (spec_page (Some 2) (Some 1)
                       (filter (\<lambda>l. link_collection_id l = 5) (chart_links items_store))))
          else [])"
      and t: "items_datasets items =
         (if (None :: CollectionItemType option) = None \<or> None = Some DATASET
          then map (\<lambda>l. the (find (\<lambda>d. dataset_id d = link_item_id l) (datasets items_store)))
                 (filter (\<lambda>l. \<exists>d \<in> set (datasets items_store). dataset_id d = link_item_id l)
                    (spec_page (Some 2) (Some 1)
                       (filter (\<lambda>l. link_collection_id l = 5) (dataset_links items_store))))
          else [])"
      and tot: "total_count items = int (length (items_dashboards items)) +
         int (length (items_charts items)) + int (length (items_datasets items))"
    have d': "items_dashboards items =
        [\<lparr>dashboard_id = 44, dashboard_title = ''Churn'', dashboard_slug = None,
          dashboard_url = ''/superset/dashboard/44/''\<rparr>]"
      using d by (simp only: page simp_thms if_True)
    have c': "items_charts items = []" using c by (simp add: none spec_page_Nil)
    have t': "items_datasets items = []" using t by (simp add: none spec_page_Nil)
    have "total_count items = 1" using tot by (simp add: d' c' t')
    with res d' c' t' all show ?thesis by (intro exI [of _ items]) simp
  qed
qed

end
